theory Spec2Isabelle
  imports Main "HOL-Library.Sublist" "HOL-Library.AList"
begin

section \<open>Python values, exceptions and the outside world\<close>

text \<open>
  The program is \<^verbatim>\<open>servercn.py\<close>. Python \<^verbatim>\<open>str\<close> values are modelled as HOL strings;
  the model is exact for ASCII text (the form asks for an English company name or
  a ticker symbol). The values that \<^verbatim>\<open>json.loads\<close> can produce are the type
  \<open>pyval\<close>; a float is carried as its \<^verbatim>\<open>repr\<close>, float arithmetic is not needed.
  A dict is an association list with distinct keys in insertion order.
\<close>

datatype pyval =
    PyNone
  | PyBool bool
  | PyInt int
  | PyFloat string
  | PyStr string
  | PyList "pyval list"
  | PyDict "(string \<times> pyval) list"

text \<open>
  Exceptions that the code can raise. \<open>ChatError\<close> stands for any exception that
  leaves \<^verbatim>\<open>user_proxy.initiate_chat\<close> (unreachable model, request timeout, ...).
  \<open>Unmodelled\<close> is not a Python exception: the JSON reader below returns it
  for a text that this model does not cover (an escape that denotes a character
  beyond ASCII, a float literal).
\<close>

datatype error =
    FileNotFoundError string
  | JSONDecodeError
  | KeyError string
  | TypeError
  | AttributeError
  | RecursionError
  | OSError
  | ValueError
  | ChatError string
  | Unmodelled

text \<open>
  What the program does to its environment, in order: \<^verbatim>\<open>os.path.exists\<close>,
  reading a file, writing a file (the text written, empty when the file was
  opened for writing and nothing was written),
  \<^verbatim>\<open>print\<close>, opening the disk cache of the LLM client, and calling the
  orchestrator \<^verbatim>\<open>user_proxy.initiate_chat\<close> with a message.
\<close>

datatype event =
    PathExists string
  | FileRead string
  | FileWrite string string
  | Print string
  | CacheDisk
  | InitiateChat string

text \<open>
  The world outside the program. \<open>files\<close> gives for every file that exists
  the text that reading it in text mode returns. \<open>open_error\<close> gives the
  exception that \<^verbatim>\<open>open(name, "w")\<close> raises for a name, if it raises one (a
  name with a directory that does not exist, a name that is too long, a file
  that may not be written). \<open>today\<close> is the date of the clock.
\<close>

record world =
  files :: "string \<rightharpoonup> string"
  open_error :: "string \<Rightarrow> error option"
  today :: string
  trace :: "event list"

text \<open>The value of \<^verbatim>\<open>autogen\<close>'s \<^verbatim>\<open>ChatResult\<close>, field by field.\<close>

record chat_result =
  chat_id :: pyval
  chat_history :: pyval
  summary :: pyval
  cost :: pyval
  human_input :: pyval

text \<open>
  Library code that the program calls and that is not part of it: the
  orchestrator (which may answer differently each time it is called, so it gets
  the number of earlier calls), \<^verbatim>\<open>json.dumps(_, indent=4)\<close> and
  \<^verbatim>\<open>json.loads\<close>.
\<close>

record env =
  initiate_chat :: "nat \<Rightarrow> string \<Rightarrow> error + chat_result"
  json_dumps :: "pyval \<Rightarrow> string"
  json_loads :: "string \<Rightarrow> error + pyval"

definition log :: "event \<Rightarrow> world \<Rightarrow> world" where
  "log e w = w\<lparr>trace := trace w @ [e]\<rparr>"

fun is_chat :: "event \<Rightarrow> bool" where
  "is_chat (InitiateChat m) = True"
| "is_chat _ = False"

definition chat_calls :: "world \<Rightarrow> nat" where
  "chat_calls w = length (filter is_chat (trace w))"

section \<open>Utility functions of the program\<close>

text \<open>\<^verbatim>\<open>get_current_date\<close>: the clock, already formatted as \<^verbatim>\<open>%Y-%m-%d\<close>.\<close>

definition get_current_date :: "world \<Rightarrow> string" where
  "get_current_date w = today w"

definition os_path_exists :: "string \<Rightarrow> world \<Rightarrow> bool \<times> world" where
  "os_path_exists filename w = (files w filename \<noteq> None, log (PathExists filename) w)"

definition read_response_from_md :: "string \<Rightarrow> world \<Rightarrow> (error + string) \<times> world" where
  "read_response_from_md filename w =
     (case files w filename of
        None \<Rightarrow> (Inl (FileNotFoundError filename), w)
      | Some content \<Rightarrow> (Inr content, log (FileRead filename) w))"

text \<open>
  Files are opened in text mode. On a POSIX system a text is written as it is,
  and a read returns it with every \<^verbatim>\<open>\r\n\<close> and every other \<^verbatim>\<open>\r\<close>
  replaced by \<^verbatim>\<open>\n\<close>: \<open>read_back\<close> is the text that a read returns for a
  text that was written.
\<close>

fun read_back :: "string \<Rightarrow> string" where
  "read_back [] = []"
| "read_back [c] = (if c = CHR 0x0D then [CHR 0x0A] else [c])"
| "read_back (c # d # cs) =
     (if c = CHR 0x0D \<and> d = CHR 0x0A then CHR 0x0A # read_back cs
      else if c = CHR 0x0D then CHR 0x0A # read_back (d # cs)
      else c # read_back (d # cs))"

text \<open>
  What \<^verbatim>\<open>file.write(text)\<close> leaves once \<^verbatim>\<open>open(filename, "w")\<close> has
  succeeded and the file is closed again.
\<close>

definition write_file :: "string \<Rightarrow> string \<Rightarrow> world \<Rightarrow> world" where
  "write_file filename text w =
     log (FileWrite filename text) (w\<lparr>files := (files w)(filename \<mapsto> read_back text)\<rparr>)"

text \<open>
  \<^verbatim>\<open>save_to_md\<close>. \<^verbatim>\<open>open(filename, "w")\<close> comes first: it may raise, and
  otherwise it creates or empties the file before \<^verbatim>\<open>content + "\n"\<close> is
  evaluated; the sum raises \<^verbatim>\<open>TypeError\<close> unless \<open>content\<close> is a string, and
  then the file stays empty.
\<close>

definition save_to_md :: "pyval \<Rightarrow> string \<Rightarrow> world \<Rightarrow> (error + unit) \<times> world" where
  "save_to_md content filename w =
     (case open_error w filename of
        Some e \<Rightarrow> (Inl e, w)
      | None \<Rightarrow>
          (case content of
             PyStr s \<Rightarrow>
               (Inr (), log (Print (''Content saved to '' @ filename))
                          (write_file filename (s @ ''\<newline>'') w))
           | _ \<Rightarrow> (Inl TypeError, write_file filename [] w)))"

definition save_response_to_json ::
  "env \<Rightarrow> chat_result \<Rightarrow> string \<Rightarrow> world \<Rightarrow> (error + unit) \<times> world" where
  "save_response_to_json env response filename w =
     (let response_dict = PyDict
            [(''chat_id'', chat_id response),
             (''chat_history'', chat_history response),
             (''summary'', summary response),
             (''cost'', cost response),
             (''human_input'', human_input response)]
      in case open_error w filename of
           Some e \<Rightarrow> (Inl e, w)
         | None \<Rightarrow>
             (Inr (), log (Print (''Response saved to '' @ filename))
                        (write_file filename (json_dumps env response_dict) w)))"

text \<open>\<^verbatim>\<open>str.upper\<close> on ASCII text.\<close>

definition upper_char :: "char \<Rightarrow> char" where
  "upper_char c =
     (let n = (of_char c :: nat)
      in if 97 \<le> n \<and> n \<le> 122 then char_of (n - 32) else c)"

definition upper :: "string \<Rightarrow> string" where
  "upper s = map upper_char s"

section \<open>The request path\<close>

definition md_name :: "string \<Rightarrow> string \<Rightarrow> string" where
  "md_name company today_date = ''result_'' @ company @ ''_'' @ today_date @ ''.md''"

definition json_name :: "string \<Rightarrow> string \<Rightarrow> string" where
  "json_name company today_date = ''result_'' @ company @ ''_'' @ today_date @ ''.json''"

definition chat_message :: "string \<Rightarrow> string \<Rightarrow> string" where
  "chat_message company d =
     ''Report in Chinese. Use all the tools provided to retrieve information available for ''
     @ company @ '' upon '' @ d
     @ ''. Analyze the positive developments and potential concerns of '' @ company
     @ '' with 2-4 most important factors respectively and keep them concise. Most factors should be inferred from company related news. Then make a rough prediction (e.g. up/down by %) of the ''
     @ company
     @ '' stock price movement for next week. Provide a summary analysis to support your prediction.''"

definition initiate_chat_and_save_response ::
  "env \<Rightarrow> string \<Rightarrow> world \<Rightarrow> (error + string) \<times> world" where
  "initiate_chat_and_save_response env company w =
     (let today_date = get_current_date w;
          json_filename = json_name company today_date;
          md_filename = md_name company today_date
      in case os_path_exists md_filename w of
           (True, w1) \<Rightarrow> read_response_from_md md_filename w1
         | (False, w1) \<Rightarrow>
             (let w2 = log CacheDisk w1;
                  message = chat_message company (get_current_date w2);
                  w3 = log (InitiateChat message) w2
              in case initiate_chat env (chat_calls w2) message of
                   Inl e \<Rightarrow> (Inl e, w3)
                 | Inr response \<Rightarrow>
                     (case save_response_to_json env response json_filename w3 of
                        (Inl e, w4) \<Rightarrow> (Inl e, w4)
                      | (Inr u, w4) \<Rightarrow>
                          (Inr (json_dumps env (chat_history response)), w4))))"

text \<open>
  \<^verbatim>\<open>entry['role']\<close> and \<^verbatim>\<open>entry['content']\<close>: only a dict can be
  indexed by a string, and the key must be there.
\<close>

definition getitem :: "pyval \<Rightarrow> string \<Rightarrow> error + pyval" where
  "getitem entry key =
     (case entry of
        PyDict kvs \<Rightarrow> (case map_of kvs key of None \<Rightarrow> Inl (KeyError key) | Some v \<Rightarrow> Inr v)
      | _ \<Rightarrow> Inl TypeError)"

text \<open>
  \<^verbatim>\<open>"###" in content\<close>: a substring test on a string, membership in a list,
  key membership in a dict, \<^verbatim>\<open>TypeError\<close> on anything else.
\<close>

definition marker :: string where
  "marker = ''###''"

definition contains_marker :: "pyval \<Rightarrow> error + bool" where
  "contains_marker content =
     (case content of
        PyStr s \<Rightarrow> Inr (sublist marker s)
      | PyList xs \<Rightarrow> Inr (PyStr marker \<in> set xs)
      | PyDict kvs \<Rightarrow> Inr (marker \<in> set (map fst kvs))
      | _ \<Rightarrow> Inl TypeError)"

definition fallback :: string where
  "fallback = ''No relevant content found.''"

text \<open>The \<^verbatim>\<open>for\<close> loop of \<^verbatim>\<open>filter_user_content\<close> over the entries of a list.\<close>

fun scan_entries :: "pyval list \<Rightarrow> error + pyval" where
  "scan_entries [] = Inr (PyStr fallback)"
| "scan_entries (entry # rest) =
     (case getitem entry ''role'' of
        Inl e \<Rightarrow> Inl e
      | Inr role \<Rightarrow>
          if role = PyStr ''user'' then
            (case getitem entry ''content'' of
               Inl e \<Rightarrow> Inl e
             | Inr content \<Rightarrow>
                 (case contains_marker content of
                    Inl e \<Rightarrow> Inl e
                  | Inr True \<Rightarrow> Inr content
                  | Inr False \<Rightarrow> scan_entries rest))
          else scan_entries rest)"

text \<open>
  What \<^verbatim>\<open>for entry in chat_history_dict\<close> iterates over: the elements of a
  list, the keys of a dict, the characters of a string; other values are not
  iterable.
\<close>

definition iterate :: "pyval \<Rightarrow> error + pyval list" where
  "iterate v =
     (case v of
        PyList xs \<Rightarrow> Inr xs
      | PyDict kvs \<Rightarrow> Inr (map (\<lambda>kv. PyStr (fst kv)) kvs)
      | PyStr s \<Rightarrow> Inr (map (\<lambda>c. PyStr [c]) s)
      | _ \<Rightarrow> Inl TypeError)"

definition filter_user_content :: "env \<Rightarrow> string \<Rightarrow> error + pyval" where
  "filter_user_content env chat_history_text =
     (case json_loads env chat_history_text of
        Inl e \<Rightarrow> Inl e
      | Inr chat_history_dict \<Rightarrow>
          (case iterate chat_history_dict of
             Inl e \<Rightarrow> Inl e
           | Inr entries \<Rightarrow> scan_entries entries))"

text \<open>
  Lines 153 to 157 of \<^verbatim>\<open>analyze_company\<close>: what happens after the existence
  check has found no report.
\<close>

definition analyze_miss ::
  "env \<Rightarrow> string \<Rightarrow> string \<Rightarrow> world \<Rightarrow> (error + pyval option) \<times> world" where
  "analyze_miss env company md_filename w =
     (case initiate_chat_and_save_response env company w of
        (Inl e, w1) \<Rightarrow> (Inl e, w1)
      | (Inr content, w1) \<Rightarrow>
          (case filter_user_content env content of
             Inl e \<Rightarrow> (Inl e, w1)
           | Inr filtered_content \<Rightarrow>
               (case save_to_md filtered_content md_filename w1 of
                  (Inl e, w2) \<Rightarrow> (Inl e, w2)
                | (Inr u, w2) \<Rightarrow> (Inr (Some filtered_content), w2))))"

text \<open>
  \<^verbatim>\<open>analyze_company\<close>. An empty string is falsy: the function falls off its
  end and returns \<^verbatim>\<open>None\<close>.
\<close>

definition analyze_company ::
  "env \<Rightarrow> string \<Rightarrow> world \<Rightarrow> (error + pyval option) \<times> world" where
  "analyze_company env company0 w =
     (if company0 = [] then (Inr None, w)
      else
        (let company = upper company0;
             today_date = get_current_date w;
             md_filename = md_name company today_date
         in case os_path_exists md_filename w of
              (True, w1) \<Rightarrow>
                (case read_response_from_md md_filename w1 of
                   (Inl e, w2) \<Rightarrow> (Inl e, w2)
                 | (Inr content, w2) \<Rightarrow> (Inr (Some (PyStr content)), w2))
            | (False, w1) \<Rightarrow> analyze_miss env company md_filename w1))"

text \<open>
  The same request when another request runs at the same time: \<open>other\<close> is what
  the other one does between the existence check of \<^verbatim>\<open>analyze_company\<close> and
  the call of \<^verbatim>\<open>initiate_chat_and_save_response\<close>.
\<close>

definition analyze_company_interleaved ::
  "(world \<Rightarrow> world) \<Rightarrow> env \<Rightarrow> string \<Rightarrow> world \<Rightarrow> (error + pyval option) \<times> world" where
  "analyze_company_interleaved other env company0 w =
     (if company0 = [] then (Inr None, w)
      else
        (let company = upper company0;
             today_date = get_current_date w;
             md_filename = md_name company today_date
         in case os_path_exists md_filename w of
              (True, w1) \<Rightarrow>
                (case read_response_from_md md_filename w1 of
                   (Inl e, w2) \<Rightarrow> (Inl e, w2)
                 | (Inr content, w2) \<Rightarrow> (Inr (Some (PyStr content)), w2))
            | (False, w1) \<Rightarrow> analyze_miss env company md_filename (other w1)))"

section \<open>The agents' configuration\<close>

text \<open>
  \<^verbatim>\<open>str.strip()\<close> removes white space at both ends; on ASCII text that is the
  characters 9 to 13 and 28 to 32.
\<close>

definition is_space :: "char \<Rightarrow> bool" where
  "is_space c = (let n = (of_char c :: nat) in (9 \<le> n \<and> n \<le> 13) \<or> (28 \<le> n \<and> n \<le> 32))"

definition strip :: "string \<Rightarrow> string" where
  "strip s = rev (dropWhile is_space (rev (dropWhile is_space s)))"

fun truthy :: "pyval \<Rightarrow> bool" where
  "truthy PyNone = False"
| "truthy (PyBool b) = b"
| "truthy (PyInt i) = (i \<noteq> 0)"
| "truthy (PyFloat r) = (r \<noteq> ''0.0'' \<and> r \<noteq> ''-0.0'')"
| "truthy (PyStr s) = (s \<noteq> [])"
| "truthy (PyList xs) = (xs \<noteq> [])"
| "truthy (PyDict kvs) = (kvs \<noteq> [])"

definition dict_get :: "(string \<times> pyval) list \<Rightarrow> string \<Rightarrow> pyval \<Rightarrow> pyval" where
  "dict_get d key dflt = (case map_of d key of None \<Rightarrow> dflt | Some v \<Rightarrow> v)"

definition sentinel :: string where
  "sentinel = ''TERMINATE''"

text \<open>
  The \<^verbatim>\<open>is_termination_msg\<close> of \<^verbatim>\<open>user_proxy\<close>:
  \<^verbatim>\<open>x.get("content", "") and x.get("content", "").strip().endswith("TERMINATE")\<close>,
  as the truth value the caller tests. A content that is truthy and not a string
  has no \<^verbatim>\<open>strip\<close>.
\<close>

definition is_termination_msg :: "(string \<times> pyval) list \<Rightarrow> error + bool" where
  "is_termination_msg x =
     (let content = dict_get x ''content'' (PyStr [])
      in if \<not> truthy content then Inr False
         else (case content of
                 PyStr s \<Rightarrow> Inr (suffix sentinel (strip s))
               | _ \<Rightarrow> Inl AttributeError))"

text \<open>The \<^verbatim>\<open>max_consecutive_auto_reply\<close> given to \<^verbatim>\<open>user_proxy\<close>.\<close>

definition max_consecutive_auto_reply :: nat where
  "max_consecutive_auto_reply = 10"

section \<open>The dialogue loop\<close>

text \<open>
  Modelled from the spec: the Dialogue Orchestrator of section 4.3, the loop
  behind \<^verbatim>\<open>user_proxy.initiate_chat\<close>, whose code is in the \<^verbatim>\<open>autogen\<close>
  package and not among the sources. The states are \<open>Running\<close>,
  \<open>TerminatedNormally\<close>, \<open>TerminatedByLimit\<close> and \<open>Failed\<close>. A step lets the
  acting agent (the Initiator on the first turn, then alternating) produce a
  message through the Turn Executor, appends it and increments \<open>turnCount\<close>;
  the terminal marker is checked on every appended message; a step that would
  exceed the turn budget ends the run as \<open>TerminatedByLimit\<close>; a failure of the
  Turn Executor ends it as \<open>Failed\<close> and keeps the partial transcript. The
  terminal marker is the program's own \<open>is_termination_msg\<close>.
\<close>

datatype agent_role = Initiator | Proxy

datatype run_state = Running | TerminatedNormally | TerminatedByLimit | Failed

record message =
  sender :: agent_role
  body :: "(string \<times> pyval) list"

record conversation =
  subject :: string
  messages :: "message list"
  turnCount :: nat
  state :: run_state

type_synonym turn_executor = "agent_role \<Rightarrow> message list \<Rightarrow> error + (string \<times> pyval) list"

definition initial_conversation :: "string \<Rightarrow> string \<Rightarrow> conversation" where
  "initial_conversation subj task =
     \<lparr>subject = subj,
      messages = [\<lparr>sender = Initiator, body = [(''content'', PyStr task)]\<rparr>],
      turnCount = 0,
      state = Running\<rparr>"

definition acting_agent :: "conversation \<Rightarrow> agent_role" where
  "acting_agent c = (if even (turnCount c) then Initiator else Proxy)"

definition orchestrator_step :: "turn_executor \<Rightarrow> nat \<Rightarrow> conversation \<Rightarrow> conversation" where
  "orchestrator_step turn max_turns c =
     (if state c \<noteq> Running then c
      else if max_turns \<le> turnCount c then c\<lparr>state := TerminatedByLimit\<rparr>
      else
        (case turn (acting_agent c) (messages c) of
           Inl e \<Rightarrow> c\<lparr>state := Failed\<rparr>
         | Inr b \<Rightarrow>
             (let c' = c\<lparr>messages := messages c @ [\<lparr>sender = acting_agent c, body = b\<rparr>],
                         turnCount := turnCount c + 1\<rparr>
              in case is_termination_msg b of
                   Inl e \<Rightarrow> c'\<lparr>state := Failed\<rparr>
                 | Inr True \<Rightarrow> c'\<lparr>state := TerminatedNormally\<rparr>
                 | Inr False \<Rightarrow> c')))"

function orchestrate :: "turn_executor \<Rightarrow> nat \<Rightarrow> conversation \<Rightarrow> conversation" where
  "orchestrate turn max_turns c =
     (if state c = Running then orchestrate turn max_turns (orchestrator_step turn max_turns c)
      else c)"
  by pat_completeness auto
termination
  by (relation "measure (\<lambda>(turn, max_turns, c).
        if state c = Running then Suc (max_turns - turnCount c) else 0)")
     (auto simp add: orchestrator_step_def Let_def split: sum.splits bool.splits)

declare orchestrate.simps [simp del]


section \<open>The standard library: \<^verbatim>\<open>json.dumps\<close> and \<^verbatim>\<open>json.loads\<close>\<close>

text \<open>
  A model of the two library functions for concrete runs. The program's own
  functions take them from \<open>env\<close>, so what is proved of the program holds for
  any behaviour of the library.
\<close>

definition dquote :: char where
  "dquote = CHR 0x22"

definition backslash :: char where
  "backslash = CHR 0x5C"

definition hex_digit :: "nat \<Rightarrow> char" where
  "hex_digit n = ''0123456789abcdef'' ! (n mod 16)"

text \<open>\<^verbatim>\<open>ESCAPE_ASCII\<close> of \<^verbatim>\<open>json.encoder\<close>.\<close>

definition escape_char :: "char \<Rightarrow> string" where
  "escape_char c =
     (let n = (of_char c :: nat)
      in if c = dquote then [backslash, dquote]
         else if c = backslash then [backslash, backslash]
         else if n = 8 then [backslash, CHR ''b'']
         else if n = 12 then [backslash, CHR ''f'']
         else if n = 10 then [backslash, CHR ''n'']
         else if n = 13 then [backslash, CHR ''r'']
         else if n = 9 then [backslash, CHR ''t'']
         else if 32 \<le> n \<and> n \<le> 126 then [c]
         else [backslash, CHR ''u'', CHR ''0'', CHR ''0'',
               hex_digit (n div 16), hex_digit (n mod 16)])"

definition encode_str :: "string \<Rightarrow> string" where
  "encode_str s = dquote # concat (map escape_char s) @ [dquote]"

fun digits_of :: "nat \<Rightarrow> string" where
  "digits_of n =
     (if n < 10 then [char_of (48 + n)]
      else digits_of (n div 10) @ [char_of (48 + n mod 10)])"

definition str_int :: "int \<Rightarrow> string" where
  "str_int i = (if i < 0 then CHR ''-'' # digits_of (nat (- i)) else digits_of (nat i))"

definition float_text :: "string \<Rightarrow> string" where
  "float_text r =
     (if r = ''nan'' then ''NaN''
      else if r = ''inf'' then ''Infinity''
      else if r = ''-inf'' then ''-Infinity''
      else r)"

definition newline_indent :: "nat \<Rightarrow> string" where
  "newline_indent lvl = CHR 0x0A # replicate (4 * lvl) CHR '' ''"

fun dumps_at :: "nat \<Rightarrow> pyval \<Rightarrow> string"
  and dumps_elems :: "nat \<Rightarrow> pyval list \<Rightarrow> string"
  and dumps_items :: "nat \<Rightarrow> (string \<times> pyval) list \<Rightarrow> string" where
  "dumps_at lvl PyNone = ''null''"
| "dumps_at lvl (PyBool b) = (if b then ''true'' else ''false'')"
| "dumps_at lvl (PyInt i) = str_int i"
| "dumps_at lvl (PyFloat r) = float_text r"
| "dumps_at lvl (PyStr s) = encode_str s"
| "dumps_at lvl (PyList xs) =
     (if xs = [] then ''[]''
      else ''['' @ newline_indent (lvl + 1) @ dumps_elems (lvl + 1) xs
           @ newline_indent lvl @ '']'')"
| "dumps_at lvl (PyDict kvs) =
     (if kvs = [] then ''{}''
      else ''{'' @ newline_indent (lvl + 1) @ dumps_items (lvl + 1) kvs
           @ newline_indent lvl @ ''}'')"
| "dumps_elems lvl [] = []"
| "dumps_elems lvl (x # xs) =
     dumps_at lvl x @ (if xs = [] then [] else '','' @ newline_indent lvl @ dumps_elems lvl xs)"
| "dumps_items lvl [] = []"
| "dumps_items lvl (kv # kvs) =
     encode_str (fst kv) @ '': '' @ dumps_at lvl (snd kv)
     @ (if kvs = [] then [] else '','' @ newline_indent lvl @ dumps_items lvl kvs)"

text \<open>\<^verbatim>\<open>json.dumps(obj, indent=4)\<close>.\<close>

definition py_json_dumps :: "pyval \<Rightarrow> string" where
  "py_json_dumps v = dumps_at 0 v"

definition is_json_ws :: "char \<Rightarrow> bool" where
  "is_json_ws c = (c = CHR '' '' \<or> c = CHR 0x09 \<or> c = CHR 0x0A \<or> c = CHR 0x0D)"

definition skip_ws :: "string \<Rightarrow> string" where
  "skip_ws s = dropWhile is_json_ws s"

definition is_digit :: "char \<Rightarrow> bool" where
  "is_digit c = (48 \<le> (of_char c :: nat) \<and> (of_char c :: nat) \<le> 57)"

definition hex_value :: "char \<Rightarrow> nat option" where
  "hex_value c =
     (let n = (of_char c :: nat)
      in if 48 \<le> n \<and> n \<le> 57 then Some (n - 48)
         else if 97 \<le> n \<and> n \<le> 102 then Some (n - 87)
         else if 65 \<le> n \<and> n \<le> 70 then Some (n - 55)
         else None)"

text \<open>\<^verbatim>\<open>BACKSLASH\<close> of \<^verbatim>\<open>json.decoder\<close>.\<close>

definition unescape :: "char \<Rightarrow> char option" where
  "unescape c =
     (if c = dquote then Some dquote
      else if c = backslash then Some backslash
      else if c = CHR ''/'' then Some CHR ''/''
      else if c = CHR ''b'' then Some (CHR 0x08)
      else if c = CHR ''f'' then Some (CHR 0x0C)
      else if c = CHR ''n'' then Some (CHR 0x0A)
      else if c = CHR ''r'' then Some (CHR 0x0D)
      else if c = CHR ''t'' then Some (CHR 0x09)
      else None)"

definition decode_u :: "char \<Rightarrow> char \<Rightarrow> char \<Rightarrow> char \<Rightarrow> error + char" where
  "decode_u a b c d =
     (case (hex_value a, hex_value b, hex_value c, hex_value d) of
        (Some h3, Some h2, Some h1, Some h0) \<Rightarrow>
          (let n = ((h3 * 16 + h2) * 16 + h1) * 16 + h0
           in if n < 128 then Inr (char_of n) else Inl Unmodelled)
      | _ \<Rightarrow> Inl JSONDecodeError)"

text \<open>
  \<^verbatim>\<open>scanstring\<close> with \<^verbatim>\<open>strict=True\<close>, from the character after the opening
  quote: the decoded string and the text after the closing quote.
\<close>

fun scanstring :: "string \<Rightarrow> error + (string \<times> string)" where
  "scanstring [] = Inl JSONDecodeError"
| "scanstring (c # cs) =
     (if c = dquote then Inr ([], cs)
      else if c = backslash then
        (case cs of
           [] \<Rightarrow> Inl JSONDecodeError
         | e # rest \<Rightarrow>
             if e = CHR ''u'' then
               (case rest of
                  h3 # h2 # h1 # h0 # rest' \<Rightarrow>
                    (case decode_u h3 h2 h1 h0 of
                       Inl err \<Rightarrow> Inl err
                     | Inr ch \<Rightarrow>
                         (case scanstring rest' of
                            Inl err \<Rightarrow> Inl err
                          | Inr (s, r) \<Rightarrow> Inr (ch # s, r)))
                | _ \<Rightarrow> Inl JSONDecodeError)
             else
               (case unescape e of
                  None \<Rightarrow> Inl JSONDecodeError
                | Some ch \<Rightarrow>
                    (case scanstring rest of
                       Inl err \<Rightarrow> Inl err
                     | Inr (s, r) \<Rightarrow> Inr (ch # s, r))))
      else if (of_char c :: nat) < 32 then Inl JSONDecodeError
      else
        (case scanstring cs of
           Inl err \<Rightarrow> Inl err
         | Inr (s, r) \<Rightarrow> Inr (c # s, r)))"

definition int_of_digits :: "string \<Rightarrow> int" where
  "int_of_digits ds = foldl (\<lambda>a d. 10 * a + (int (of_char d) - 48)) 0 ds"

text \<open>
  \<^verbatim>\<open>NUMBER_RE\<close>: an optional sign, \<^verbatim>\<open>0\<close> or a digit string without leading
  zero, then an optional fraction and an optional exponent, each taken only when
  it is complete. The result is the integer, or \<open>None\<close> for the float when a
  fraction or an exponent is there, with the remaining text.
\<close>

definition scan_fraction :: "string \<Rightarrow> string \<times> string" where
  "scan_fraction s =
     (case s of
        c # d # r \<Rightarrow>
          if c = CHR ''.'' \<and> is_digit d
          then (c # d # takeWhile is_digit r, dropWhile is_digit r)
          else ([], s)
      | _ \<Rightarrow> ([], s))"

definition scan_exponent :: "string \<Rightarrow> string \<times> string" where
  "scan_exponent s =
     (case s of
        [] \<Rightarrow> ([], s)
      | e # r \<Rightarrow>
          if e = CHR ''e'' \<or> e = CHR ''E'' then
            (case r of
               [] \<Rightarrow> ([], s)
             | g # r' \<Rightarrow>
                 if g = CHR ''+'' \<or> g = CHR ''-'' then
                   (case r' of
                      [] \<Rightarrow> ([], s)
                    | d # r'' \<Rightarrow>
                        if is_digit d
                        then (e # g # d # takeWhile is_digit r'', dropWhile is_digit r'')
                        else ([], s))
                 else if is_digit g
                 then (e # g # takeWhile is_digit r', dropWhile is_digit r')
                 else ([], s))
          else ([], s))"

definition scan_number :: "string \<Rightarrow> (int option \<times> string) option" where
  "scan_number s =
     (let negative = (s \<noteq> [] \<and> hd s = CHR ''-'');
          s1 = (if negative then tl s else s)
      in case s1 of
           [] \<Rightarrow> None
         | d # ds \<Rightarrow>
             if \<not> is_digit d then None
             else
               (let integer = (if d = CHR ''0'' then [d] else d # takeWhile is_digit ds);
                    s2 = (if d = CHR ''0'' then ds else dropWhile is_digit ds);
                    (frac, s3) = scan_fraction s2;
                    (exp, s4) = scan_exponent s3
                in if frac = [] \<and> exp = []
                   then Some (Some ((if negative then - 1 else 1) * int_of_digits integer), s4)
                   else Some (None, s4)))"

text \<open>
  The scanner \<^verbatim>\<open>scan_once\<close> with \<^verbatim>\<open>JSONArray\<close> and \<^verbatim>\<open>JSONObject\<close>. The
  first argument bounds the depth of the calls; \<open>py_json_loads\<close> starts with
  more than a text of that length can use. Pairs with a key that is already
  there replace its value, as \<^verbatim>\<open>dict(pairs)\<close> does.
\<close>

fun scan_once :: "nat \<Rightarrow> string \<Rightarrow> error + (pyval \<times> string)"
  and array_items :: "nat \<Rightarrow> pyval list \<Rightarrow> string \<Rightarrow> error + (pyval \<times> string)"
  and object_items ::
    "nat \<Rightarrow> (string \<times> pyval) list \<Rightarrow> string \<Rightarrow> error + (pyval \<times> string)" where
  "scan_once 0 s = Inl RecursionError"
| "scan_once (Suc n) s =
     (case s of
        [] \<Rightarrow> Inl JSONDecodeError
      | c # cs \<Rightarrow>
          if c = dquote then
            (case scanstring cs of
               Inl err \<Rightarrow> Inl err
             | Inr (str, r) \<Rightarrow> Inr (PyStr str, r))
          else if c = CHR ''{'' then
            (case skip_ws cs of
               [] \<Rightarrow> Inl JSONDecodeError
             | c' # r \<Rightarrow>
                 if c' = CHR ''}'' then Inr (PyDict [], r)
                 else if c' = dquote then object_items n [] r
                 else Inl JSONDecodeError)
          else if c = CHR ''['' then
            (case skip_ws cs of
               [] \<Rightarrow> Inl JSONDecodeError
             | c' # r \<Rightarrow>
                 if c' = CHR '']'' then Inr (PyList [], r)
                 else array_items n [] (c' # r))
          else if prefix ''null'' s then Inr (PyNone, drop 4 s)
          else if prefix ''true'' s then Inr (PyBool True, drop 4 s)
          else if prefix ''false'' s then Inr (PyBool False, drop 5 s)
          else
            (case scan_number s of
               Some (Some i, r) \<Rightarrow> Inr (PyInt i, r)
             | Some (None, r) \<Rightarrow> Inl Unmodelled
             | None \<Rightarrow>
                 if prefix ''NaN'' s \<or> prefix ''Infinity'' s \<or> prefix ''-Infinity'' s
                 then Inl Unmodelled
                 else Inl JSONDecodeError))"
| "array_items 0 acc s = Inl RecursionError"
| "array_items (Suc n) acc s =
     (case scan_once n s of
        Inl err \<Rightarrow> Inl err
      | Inr (v, r) \<Rightarrow>
          (case skip_ws r of
             [] \<Rightarrow> Inl JSONDecodeError
           | c # r' \<Rightarrow>
               if c = CHR '']'' then Inr (PyList (acc @ [v]), r')
               else if c = CHR '','' then array_items n (acc @ [v]) (skip_ws r')
               else Inl JSONDecodeError))"
| "object_items 0 acc s = Inl RecursionError"
| "object_items (Suc n) acc s =
     (case scanstring s of
        Inl err \<Rightarrow> Inl err
      | Inr (key, r) \<Rightarrow>
          (case skip_ws r of
             [] \<Rightarrow> Inl JSONDecodeError
           | c # r1 \<Rightarrow>
               if c \<noteq> CHR '':'' then Inl JSONDecodeError
               else
                 (case scan_once n (skip_ws r1) of
                    Inl err \<Rightarrow> Inl err
                  | Inr (v, r2) \<Rightarrow>
                      (case skip_ws r2 of
                         [] \<Rightarrow> Inl JSONDecodeError
                       | c' # r3 \<Rightarrow>
                           if c' = CHR ''}'' then Inr (PyDict (AList.update key v acc), r3)
                           else if c' = CHR '','' then
                             (case skip_ws r3 of
                                [] \<Rightarrow> Inl JSONDecodeError
                              | q # r4 \<Rightarrow>
                                  if q = dquote
                                  then object_items n (AList.update key v acc) r4
                                  else Inl JSONDecodeError)
                           else Inl JSONDecodeError))))"

text \<open>\<^verbatim>\<open>json.loads\<close>: one value between optional white space, nothing after it.\<close>

definition py_json_loads :: "string \<Rightarrow> error + pyval" where
  "py_json_loads s =
     (case scan_once (2 * length s + 2) (skip_ws s) of
        Inl err \<Rightarrow> Inl err
      | Inr (v, r) \<Rightarrow> if skip_ws r = [] then Inr v else Inl JSONDecodeError)"

section \<open>Vocabulary of the claims\<close>

text \<open>
  The entries of a transcript: each is a dict with a role, and with a text as
  content when the role is \<^verbatim>\<open>user\<close> (an entry of another role may carry
  \<^verbatim>\<open>None\<close>, as a tool call does). A report is an entry of role \<^verbatim>\<open>user\<close>
  whose content contains the marker.
\<close>

definition is_message :: "pyval \<Rightarrow> bool" where
  "is_message entry =
     (case entry of
        PyDict kvs \<Rightarrow>
          (case map_of kvs ''role'' of
             None \<Rightarrow> False
           | Some role \<Rightarrow>
               if role = PyStr ''user''
               then (case map_of kvs ''content'' of Some (PyStr s) \<Rightarrow> True | _ \<Rightarrow> False)
               else True)
      | _ \<Rightarrow> False)"

definition is_report :: "pyval \<Rightarrow> bool" where
  "is_report entry =
     (case entry of
        PyDict kvs \<Rightarrow>
          map_of kvs ''role'' = Some (PyStr ''user'')
          \<and> (case map_of kvs ''content'' of Some (PyStr s) \<Rightarrow> sublist marker s | _ \<Rightarrow> False)
      | _ \<Rightarrow> False)"

definition content_of :: "pyval \<Rightarrow> pyval" where
  "content_of entry = (case entry of PyDict kvs \<Rightarrow> dict_get kvs ''content'' PyNone | _ \<Rightarrow> PyNone)"

text \<open>Two subjects that differ only in the case of ASCII letters.\<close>

definition is_ascii_letter :: "char \<Rightarrow> bool" where
  "is_ascii_letter c =
     (let n = (of_char c :: nat) in (65 \<le> n \<and> n \<le> 90) \<or> (97 \<le> n \<and> n \<le> 122))"

definition same_letter :: "char \<Rightarrow> char \<Rightarrow> bool" where
  "same_letter a b =
     (a = b \<or> (is_ascii_letter a \<and> is_ascii_letter b
                \<and> ((of_char a :: nat) = of_char b + 32 \<or> (of_char b :: nat) = of_char a + 32)))"

definition differ_only_in_case :: "string \<Rightarrow> string \<Rightarrow> bool" where
  "differ_only_in_case s1 s2 = list_all2 same_letter s1 s2"

definition is_ascii_lower :: "char \<Rightarrow> bool" where
  "is_ascii_lower c = (let n = (of_char c :: nat) in 97 \<le> n \<and> n \<le> 122)"

section \<open>A concrete environment\<close>

text \<open>
  An orchestrator that answers every request with the same two-message
  transcript, one that always fails, and the library model of the previous
  section; a first day without files, and the same day with a cached report.
\<close>

definition sample_history :: pyval where
  "sample_history = PyList
     [PyDict [(''content'', PyStr ''Report in Chinese.''), (''role'', PyStr ''assistant'')],
      PyDict [(''content'', PyStr ''### ACME: up by 2%''), (''role'', PyStr ''user'')]]"

definition sample_response :: chat_result where
  "sample_response =
     \<lparr>chat_id = PyNone, chat_history = sample_history, summary = PyStr ''up by 2%'',
      cost = PyDict [], human_input = PyList []\<rparr>"

definition sample_env :: env where
  "sample_env =
     \<lparr>initiate_chat = (\<lambda>n message. Inr sample_response),
      json_dumps = py_json_dumps,
      json_loads = py_json_loads\<rparr>"

definition failing_env :: env where
  "failing_env =
     \<lparr>initiate_chat = (\<lambda>n message. Inl (ChatError ''timeout'')),
      json_dumps = py_json_dumps,
      json_loads = py_json_loads\<rparr>"

text \<open>
  Two Turn Executors: one whose messages never carry the sentinel, and one that
  ends its third message with the sentinel and a newline.
\<close>

definition chatty_turn :: turn_executor where
  "chatty_turn actor history = Inr [(''content'', PyStr ''Still collecting data.'')]"

definition finishing_turn :: turn_executor where
  "finishing_turn actor history =
     (if length history < 3
      then Inr [(''content'', PyStr ''Calling get_company_news.'')]
      else Inr [(''content'', PyStr ''The report is done. TERMINATE\<newline>'')])"

text \<open>
  \<^verbatim>\<open>open(name, "w")\<close> in a working directory without subdirectories where
  every file may be written: \<^verbatim>\<open>ValueError\<close> for a name with a null
  character, \<^verbatim>\<open>OSError\<close> for a path of more than 4095 characters or a
  first component of more than 255, \<^verbatim>\<open>FileNotFoundError\<close> for a name with a
  slash.
\<close>

definition posix_open_error :: "string \<Rightarrow> error option" where
  "posix_open_error name =
     (if CHR 0x00 \<in> set name then Some ValueError
      else if 4095 < length name then Some OSError
      else if 255 < length (takeWhile (\<lambda>c. c \<noteq> CHR ''/'') name) then Some OSError
      else if CHR ''/'' \<in> set name then Some (FileNotFoundError name)
      else None)"

definition fresh_world :: world where
  "fresh_world =
     \<lparr>files = Map.empty, open_error = posix_open_error, today = ''2024-05-01'', trace = []\<rparr>"

definition quiet_history :: pyval where
  "quiet_history = PyList
     [PyDict [(''content'', PyStr ''Report in Chinese.''), (''role'', PyStr ''assistant'')],
      PyDict [(''content'', PyNone), (''role'', PyStr ''assistant'')],
      PyDict [(''content'', PyStr ''No news today.''), (''role'', PyStr ''user'')]]"

definition cached_world :: world where
  "cached_world =
     \<lparr>files = [''result_ACME_2024-05-01.md'' \<mapsto> ''### ACME: flat''],
      open_error = posix_open_error, today = ''2024-05-01'', trace = []\<rparr>"

section \<open>Facts about the world and the request path\<close>

lemma files_log [simp]: "files (log e w) = files w" by (simp add: log_def)
lemma open_error_log [simp]: "open_error (log e w) = open_error w" by (simp add: log_def)
lemma today_log [simp]: "today (log e w) = today w" by (simp add: log_def)
lemma trace_log [simp]: "trace (log e w) = trace w @ [e]" by (simp add: log_def)
lemma chat_calls_log [simp]:
  "chat_calls (log e w) = chat_calls w + (if is_chat e then 1 else 0)"
  by (simp add: chat_calls_def)

lemma files_write_file [simp]: "files (write_file f t w) = (files w)(f \<mapsto> read_back t)"
  by (simp add: write_file_def)
lemma open_error_write_file [simp]: "open_error (write_file f t w) = open_error w"
  by (simp add: write_file_def)
lemma today_write_file [simp]: "today (write_file f t w) = today w"
  by (simp add: write_file_def)
lemma trace_write_file [simp]: "trace (write_file f t w) = trace w @ [FileWrite f t]"
  by (simp add: write_file_def)
lemma chat_calls_write_file [simp]: "chat_calls (write_file f t w) = chat_calls w"
  by (simp add: write_file_def chat_calls_def)

lemma read_back_plain: "CHR 0x0D \<notin> set t \<Longrightarrow> read_back t = t"
  by (induction t rule: read_back.induct) auto

lemma md_json_distinct: "json_name c d \<noteq> md_name c d"
  by (simp add: json_name_def md_name_def)

lemma analyze_company_hit:
  assumes "company \<noteq> []" and "files w (md_name (upper company) (today w)) = Some report"
  shows "analyze_company env company w =
    (Inr (Some (PyStr report)),
     log (FileRead (md_name (upper company) (today w)))
       (log (PathExists (md_name (upper company) (today w))) w))"
  using assms
  by (simp add: analyze_company_def get_current_date_def os_path_exists_def
      read_response_from_md_def Let_def)

lemma analyze_company_miss:
  assumes "company \<noteq> []" and "files w (md_name (upper company) (today w)) = None"
  shows "analyze_company env company w =
    analyze_miss env (upper company) (md_name (upper company) (today w))
       (log (PathExists (md_name (upper company) (today w))) w)"
  using assms
  by (simp add: analyze_company_def get_current_date_def os_path_exists_def Let_def)

lemma save_response_to_json_facts:
  "today (snd (save_response_to_json env r f w)) = today w"
  "chat_calls (snd (save_response_to_json env r f w)) = chat_calls w"
  "open_error (snd (save_response_to_json env r f w)) = open_error w"
  "g \<noteq> f \<Longrightarrow> files (snd (save_response_to_json env r f w)) g = files w g"
  "\<exists>evs. trace (snd (save_response_to_json env r f w)) = trace w @ evs"
  by (simp_all add: save_response_to_json_def Let_def split: option.splits)

lemma save_to_md_facts:
  "today (snd (save_to_md v f w)) = today w"
  "chat_calls (snd (save_to_md v f w)) = chat_calls w"
  "open_error (snd (save_to_md v f w)) = open_error w"
  "\<exists>evs. trace (snd (save_to_md v f w)) = trace w @ evs"
  by (simp_all add: save_to_md_def split: option.splits pyval.splits)

lemma save_to_md_str:
  "open_error w f = None \<Longrightarrow>
   save_to_md (PyStr s) f w =
     (Inr (), log (Print (''Content saved to '' @ f)) (write_file f (s @ ''\<newline>'') w))"
  by (simp add: save_to_md_def)

lemma save_to_md_ok:
  assumes "save_to_md v f w = (Inr u, w')"
  shows "\<exists>s. v = PyStr s \<and> open_error w f = None
           \<and> files w' = (files w)(f \<mapsto> read_back (s @ ''\<newline>''))"
  using assms by (cases v; cases "open_error w f") (auto simp add: save_to_md_def)

lemma initiate_hit:
  assumes "files w (md_name company (today w)) = Some c"
  shows "initiate_chat_and_save_response env company w =
    (Inr c, log (FileRead (md_name company (today w))) (log (PathExists (md_name company (today w))) w))"
  using assms
  by (simp add: initiate_chat_and_save_response_def get_current_date_def os_path_exists_def Let_def
     read_response_from_md_def)

lemma initiate_failed_chat:
  assumes "files w (md_name company (today w)) = None"
    and "initiate_chat env (chat_calls w) (chat_message company (today w)) = Inl e"
  shows "initiate_chat_and_save_response env company w =
    (Inl e, log (InitiateChat (chat_message company (today w)))
              (log CacheDisk (log (PathExists (md_name company (today w))) w)))"
  using assms
  by (simp add: initiate_chat_and_save_response_def get_current_date_def os_path_exists_def Let_def)

lemma initiate_response:
  assumes "files w (md_name company (today w)) = None"
    and "initiate_chat env (chat_calls w) (chat_message company (today w)) = Inr response"
  shows "initiate_chat_and_save_response env company w =
    (case save_response_to_json env response (json_name company (today w))
            (log (InitiateChat (chat_message company (today w)))
               (log CacheDisk (log (PathExists (md_name company (today w))) w))) of
       (Inl e, w4) \<Rightarrow> (Inl e, w4)
     | (Inr u, w4) \<Rightarrow> (Inr (json_dumps env (chat_history response)), w4))"
  using assms
  by (simp add: initiate_chat_and_save_response_def get_current_date_def os_path_exists_def Let_def)

text \<open>What is known of the world after the inner function, whatever it returned.\<close>

lemma initiate_world:
  "today (snd (initiate_chat_and_save_response env c w)) = today w"
  "open_error (snd (initiate_chat_and_save_response env c w)) = open_error w"
  "files (snd (initiate_chat_and_save_response env c w)) (md_name c (today w)) =
     files w (md_name c (today w))"
  "\<exists>evs. trace (snd (initiate_chat_and_save_response env c w)) = trace w @ evs"
  "chat_calls (snd (initiate_chat_and_save_response env c w)) =
     (if files w (md_name c (today w)) = None then Suc (chat_calls w) else chat_calls w)"
proof -
  let ?md = "md_name c (today w)"
  let ?msg = "chat_message c (today w)"
  let ?w3 = "log (InitiateChat ?msg) (log CacheDisk (log (PathExists ?md) w))"
  let ?r = "initiate_chat_and_save_response env c w"
  have "today (snd ?r) = today w \<and> open_error (snd ?r) = open_error w
      \<and> files (snd ?r) ?md = files w ?md
      \<and> (\<exists>evs. trace (snd ?r) = trace w @ evs)
      \<and> chat_calls (snd ?r) = (if files w ?md = None then Suc (chat_calls w) else chat_calls w)"
  proof (cases "files w ?md")
    case (Some t)
    then show ?thesis
      by (simp add: initiate_hit)
  next
    case None
    show ?thesis
    proof (cases "initiate_chat env (chat_calls w) ?msg")
      case (Inl e)
      with None show ?thesis
        by (simp add: initiate_failed_chat)
    next
      case (Inr response)
      let ?sv = "save_response_to_json env response (json_name c (today w)) ?w3"
      have r: "snd ?r = snd ?sv"
        using initiate_response [OF None Inr]
        by (cases ?sv; cases "fst ?sv") auto
      from save_response_to_json_facts(5) [of env response "json_name c (today w)" ?w3]
      obtain evs where "trace (snd ?sv) = trace ?w3 @ evs"
        by blast
      then have "trace (snd ?sv) = trace w @ (PathExists ?md # CacheDisk # InitiateChat ?msg # evs)"
        by simp
      then have "\<exists>evs. trace (snd ?sv) = trace w @ evs"
        by blast
      with None r show ?thesis
        using md_json_distinct [of c "today w"]
        by (simp add: save_response_to_json_facts)
    qed
  qed
  then show
    "today (snd ?r) = today w"
    "open_error (snd ?r) = open_error w"
    "files (snd ?r) ?md = files w ?md"
    "\<exists>evs. trace (snd ?r) = trace w @ evs"
    "chat_calls (snd ?r) = (if files w ?md = None then Suc (chat_calls w) else chat_calls w)"
    by simp_all
qed

text \<open>The three ways in which lines 153 to 157 end.\<close>

lemma analyze_miss_cases:
  obtains
    (inner) e w1 where
      "initiate_chat_and_save_response env c w = (Inl e, w1)"
      "analyze_miss env c md w = (Inl e, w1)"
  | (filter) t e w1 where
      "initiate_chat_and_save_response env c w = (Inr t, w1)"
      "filter_user_content env t = Inl e"
      "analyze_miss env c md w = (Inl e, w1)"
  | (save) t v w1 where
      "initiate_chat_and_save_response env c w = (Inr t, w1)"
      "filter_user_content env t = Inr v"
      "analyze_miss env c md w =
         (case save_to_md v md w1 of
            (Inl e, w2) \<Rightarrow> (Inl e, w2)
          | (Inr u, w2) \<Rightarrow> (Inr (Some v), w2))"
proof -
  obtain r w1 where i: "initiate_chat_and_save_response env c w = (r, w1)"
    by (cases "initiate_chat_and_save_response env c w")
  show ?thesis
  proof (cases r)
    case (Inl e)
    with i have "analyze_miss env c md w = (Inl e, w1)"
      by (simp add: analyze_miss_def)
    with i Inl show ?thesis
      by (intro inner) simp_all
  next
    case (Inr t)
    show ?thesis
    proof (cases "filter_user_content env t")
      case (Inl e)
      with i Inr have "analyze_miss env c md w = (Inl e, w1)"
        by (simp add: analyze_miss_def)
      with i Inr Inl show ?thesis
        by (intro filter) simp_all
    next
      case f: (Inr v)
      with i Inr have "analyze_miss env c md w =
         (case save_to_md v md w1 of
            (Inl e, w2) \<Rightarrow> (Inl e, w2)
          | (Inr u, w2) \<Rightarrow> (Inr (Some v), w2))"
        by (simp add: analyze_miss_def)
      with i Inr f show ?thesis
        by (intro save) simp_all
    qed
  qed
qed

lemma analyze_miss_world:
  "today (snd (analyze_miss env c md w)) = today w"
  "\<exists>evs. trace (snd (analyze_miss env c md w)) = trace w @ evs"
  "chat_calls (snd (analyze_miss env c md w)) =
     (if files w (md_name c (today w)) = None then Suc (chat_calls w) else chat_calls w)"
proof -
  let ?w1 = "snd (initiate_chat_and_save_response env c w)"
  let ?calls = "if files w (md_name c (today w)) = None then Suc (chat_calls w) else chat_calls w"
  have "today (snd (analyze_miss env c md w)) = today w
      \<and> (\<exists>evs. trace (snd (analyze_miss env c md w)) = trace w @ evs)
      \<and> chat_calls (snd (analyze_miss env c md w)) = ?calls"
  proof (cases rule: analyze_miss_cases [of env c w md])
    case (inner e w1)
    then show ?thesis
      using initiate_world [of env c w] by simp
  next
    case (filter t e w1)
    then show ?thesis
      using initiate_world [of env c w] by simp
  next
    case (save t v w1)
    then have w1: "w1 = ?w1"
      by simp
    let ?sv = "save_to_md v md ?w1"
    have s: "snd (analyze_miss env c md w) = snd ?sv"
      using save(3) w1 by (cases ?sv; cases "fst ?sv") auto
    from initiate_world(4) [of env c w] obtain evs1 where "trace ?w1 = trace w @ evs1"
      by blast
    moreover from save_to_md_facts(4) [of v md ?w1] obtain evs2 where
      "trace (snd ?sv) = trace ?w1 @ evs2"
      by blast
    ultimately have "trace (snd ?sv) = trace w @ (evs1 @ evs2)"
      by simp
    then have "\<exists>evs. trace (snd ?sv) = trace w @ evs"
      by blast
    with s show ?thesis
      using initiate_world [of env c w] by (simp add: save_to_md_facts)
  qed
  then show
    "today (snd (analyze_miss env c md w)) = today w"
    "\<exists>evs. trace (snd (analyze_miss env c md w)) = trace w @ evs"
    "chat_calls (snd (analyze_miss env c md w)) = ?calls"
    by simp_all
qed

lemma trace_analyze_miss:
  "\<exists>evs. trace (snd (analyze_miss env c md w)) = trace w @ evs"
  by (rule analyze_miss_world)

lemma analyze_miss_ok:
  assumes none: "files w (md_name c (today w)) = None"
    and ok: "analyze_miss env c (md_name c (today w)) w = (Inr (Some r), w')"
  shows "\<exists>s. r = PyStr s
           \<and> files w' (md_name c (today w)) = Some (read_back (s @ ''\<newline>''))
           \<and> today w' = today w \<and> chat_calls w' = Suc (chat_calls w)"
proof -
  let ?md = "md_name c (today w)"
  let ?w1 = "snd (initiate_chat_and_save_response env c w)"
  have facts: "today w' = today w" "chat_calls w' = Suc (chat_calls w)"
    using analyze_miss_world(1,3) [of env c ?md w] ok none by simp_all
  show ?thesis
  proof (cases rule: analyze_miss_cases [of env c w ?md])
    case (inner e w1)
    with ok show ?thesis by simp
  next
    case (filter t e w1)
    with ok show ?thesis by simp
  next
    case (save t v w1)
    then have w1: "w1 = ?w1"
      by simp
    let ?sv = "save_to_md v ?md ?w1"
    from save(3) ok w1 obtain u where sv: "?sv = (Inr u, w')" and rv: "r = v"
      by (cases ?sv; cases "fst ?sv") auto
    from save_to_md_ok [OF sv] obtain s where
      "v = PyStr s" "files w' = (files ?w1)(?md \<mapsto> read_back (s @ ''\<newline>''))"
      by blast
    with rv facts show ?thesis
      by simp
  qed
qed

lemma success_leaves_entry:
  assumes first: "analyze_company env company w = (Inr (Some r1), w1)"
  shows "company \<noteq> [] \<and> today w1 = today w \<and> chat_calls w1 \<le> chat_calls w + 1
       \<and> (\<exists>s. r1 = PyStr s
            \<and> files w1 (md_name (upper company) (today w)) =
                Some (if files w (md_name (upper company) (today w)) = None
                      then read_back (s @ ''\<newline>'') else s))"
proof -
  let ?md = "md_name (upper company) (today w)"
  have ne: "company \<noteq> []"
    using first by (auto simp add: analyze_company_def)
  show ?thesis
  proof (cases "files w ?md")
    case (Some report)
    from first analyze_company_hit [OF ne Some, of env]
    have "r1 = PyStr report" and "w1 = log (FileRead ?md) (log (PathExists ?md) w)"
      by simp_all
    with ne Some show ?thesis by simp
  next
    case None
    let ?w0 = "log (PathExists ?md) w"
    have none0: "files ?w0 (md_name (upper company) (today ?w0)) = None"
      using None by simp
    have miss: "analyze_miss env (upper company) (md_name (upper company) (today ?w0)) ?w0 =
        (Inr (Some r1), w1)"
      using first analyze_company_miss [OF ne None, of env] by simp
    from analyze_miss_ok [OF none0 miss] ne None show ?thesis
      by auto
  qed
qed

lemma analyze_miss_calls:
  assumes none: "files w (md_name c (today w)) = None"
  shows "chat_calls (snd (analyze_miss env c (md_name c (today w)) w)) = Suc (chat_calls w)"
  using analyze_miss_world(3) [of env c "md_name c (today w)" w] none by simp

lemma analyze_miss_failed_chat:
  assumes none: "files w (md_name c (today w)) = None"
    and fail: "initiate_chat env (chat_calls w) (chat_message c (today w)) = Inl e"
  shows "analyze_miss env c (md_name c (today w)) w =
    (Inl e, log (InitiateChat (chat_message c (today w)))
              (log CacheDisk (log (PathExists (md_name c (today w))) w)))"
  using initiate_failed_chat [OF none fail] by (simp add: analyze_miss_def)

lemma analyze_miss_files_changed:
  assumes none: "files w (md_name c (today w)) = None"
    and changed: "files (snd (analyze_miss env c (md_name c (today w)) w)) \<noteq> files w"
  shows "\<exists>resp. initiate_chat env (chat_calls w) (chat_message c (today w)) = Inr resp"
proof (cases "initiate_chat env (chat_calls w) (chat_message c (today w))")
  case (Inl e)
  from analyze_miss_failed_chat [OF none Inl] changed show ?thesis
    by simp
next
  case (Inr resp)
  then show ?thesis by blast
qed

lemma filter_user_content_undecodable:
  "json_loads env raw = Inl e \<Longrightarrow> filter_user_content env raw = Inl e"
  by (simp add: filter_user_content_def)

lemma scan_entries_messages:
  "list_all is_message entries \<Longrightarrow>
   scan_entries entries =
     Inr (case find is_report entries of
            Some entry \<Rightarrow> content_of entry
          | None \<Rightarrow> PyStr fallback)"
proof (induction entries)
  case Nil
  show ?case by simp
next
  case (Cons entry rest)
  then have m: "is_message entry" and ih: "scan_entries rest =
     Inr (case find is_report rest of Some entry \<Rightarrow> content_of entry | None \<Rightarrow> PyStr fallback)"
    by simp_all
  from m obtain kvs role where e: "entry = PyDict kvs" and r: "map_of kvs ''role'' = Some role"
    by (auto simp add: is_message_def split: pyval.splits option.splits)
  show ?case
  proof (cases "role = PyStr ''user''")
    case False
    with e r have "\<not> is_report entry"
      by (simp add: is_report_def)
    with False e r ih show ?thesis
      by (simp add: getitem_def)
  next
    case True
    with m e r obtain s where c: "map_of kvs ''content'' = Some (PyStr s)"
      by (auto simp add: is_message_def split: option.splits pyval.splits)
    from True e r c have rep: "is_report entry \<longleftrightarrow> sublist marker s"
      by (simp add: is_report_def)
    from e c have con: "content_of entry = PyStr s"
      by (simp add: content_of_def dict_get_def)
    from True e r c ih rep con show ?thesis
      by (simp add: getitem_def contains_marker_def)
  qed
qed

lemma upper_char_same_letter:
  assumes "same_letter a b"
  shows "upper_char a = upper_char b"
proof -
  have *: "upper_char x = y" if "is_ascii_letter x" "is_ascii_letter y"
      "(of_char x :: nat) = of_char y + 32" for x y
  proof -
    from that have "char_of ((of_char x :: nat) - 32) = char_of (of_char y :: nat)"
      by simp
    with that show ?thesis
      by (auto simp add: upper_char_def is_ascii_letter_def Let_def)
  qed
  have **: "upper_char y = y" if "is_ascii_letter x" "is_ascii_letter y"
      "(of_char x :: nat) = of_char y + 32" for x y
    using that by (auto simp add: upper_char_def is_ascii_letter_def Let_def)
  from assms * ** show ?thesis
    unfolding same_letter_def by metis
qed

lemma upper_differ_only_in_case:
  "differ_only_in_case s1 s2 \<Longrightarrow> upper s1 = upper s2"
  unfolding differ_only_in_case_def upper_def
  by (induction s1 s2 rule: list_all2_induct) (simp_all add: upper_char_same_letter)

lemma analyze_company_upper:
  assumes "upper s1 = upper s2"
  shows "analyze_company env s1 w = analyze_company env s2 w"
proof -
  from assms have "s1 = [] \<longleftrightarrow> s2 = []"
    by (metis upper_def map_is_Nil_conv)
  with assms show ?thesis
    by (simp add: analyze_company_def)
qed

lemma of_char_upper_char:
  "(of_char (upper_char c) :: nat) =
     (if 97 \<le> (of_char c :: nat) \<and> (of_char c :: nat) \<le> 122 then of_char c - 32 else of_char c)"
proof -
  have "(of_char c :: nat) - 32 < 256"
    using nat_of_char_less_256 [of c] by arith
  then have "((of_char c :: nat) - 32) mod 256 = of_char c - 32"
    by (rule mod_less)
  then show ?thesis
    by (simp add: upper_char_def Let_def)
qed

lemma fold_case_arith:
  fixes n m :: nat
  assumes "(if 97 \<le> n \<and> n \<le> 122 then n - 32 else n) =
      (if 97 \<le> m \<and> m \<le> 122 then m - 32 else m)"
  shows "n = m \<or> (n = m + 32 \<and> 65 \<le> m \<and> m \<le> 90) \<or> (m = n + 32 \<and> 65 \<le> n \<and> n \<le> 90)"
  using assms by (auto split: if_splits)

lemma fold_case_not_lower:
  fixes n :: nat
  shows "\<not> (97 \<le> (if 97 \<le> n \<and> n \<le> 122 then n - 32 else n)
            \<and> (if 97 \<le> n \<and> n \<le> 122 then n - 32 else n) \<le> 122)"
  by (auto split: if_splits)

lemma upper_char_not_lower: "\<not> is_ascii_lower (upper_char c)"
  unfolding is_ascii_lower_def Let_def of_char_upper_char
  by (rule fold_case_not_lower)

lemma upper_char_idem: "upper_char (upper_char c) = upper_char c"
proof -
  from upper_char_not_lower [of c]
  have "\<not> (97 \<le> (of_char (upper_char c) :: nat) \<and> (of_char (upper_char c) :: nat) \<le> 122)"
    by (simp add: is_ascii_lower_def Let_def)
  then show ?thesis
    by (auto simp add: upper_char_def [of "upper_char c"] Let_def)
qed

lemma upper_char_eq_iff: "upper_char a = upper_char b \<longleftrightarrow> same_letter a b"
proof
  assume "same_letter a b"
  then show "upper_char a = upper_char b"
    by (rule upper_char_same_letter)
next
  assume eq: "upper_char a = upper_char b"
  let ?n = "of_char a :: nat" and ?m = "of_char b :: nat"
  from eq have "(of_char (upper_char a) :: nat) = of_char (upper_char b)"
    by simp
  then have "(if 97 \<le> ?n \<and> ?n \<le> 122 then ?n - 32 else ?n) =
      (if 97 \<le> ?m \<and> ?m \<le> 122 then ?m - 32 else ?m)"
    by (simp only: of_char_upper_char)
  then have "?n = ?m \<or> (?n = ?m + 32 \<and> 65 \<le> ?m \<and> ?m \<le> 90)
      \<or> (?m = ?n + 32 \<and> 65 \<le> ?n \<and> ?n \<le> 90)"
    by (rule fold_case_arith)
  then consider "?n = ?m" | "?n = ?m + 32 \<and> 65 \<le> ?m \<and> ?m \<le> 90"
      | "?m = ?n + 32 \<and> 65 \<le> ?n \<and> ?n \<le> 90"
    by blast
  then show "same_letter a b"
  proof cases
    case 1
    then have "a = b"
      by (simp only: of_char_eq_iff)
    then show ?thesis
      by (simp add: same_letter_def)
  next
    case 2
    then show ?thesis
      by (simp add: same_letter_def is_ascii_letter_def Let_def)
  next
    case 3
    then show ?thesis
      by (simp add: same_letter_def is_ascii_letter_def Let_def)
  qed
qed

lemma upper_eq_iff: "upper s1 = upper s2 \<longleftrightarrow> differ_only_in_case s1 s2"
proof -
  have "map upper_char s1 = map upper_char s2 \<longleftrightarrow> list_all2 same_letter s1 s2"
  proof (induction s1 arbitrary: s2)
    case Nil
    show ?case by auto
  next
    case (Cons a s1)
    show ?case
    proof (cases s2)
      case Nil
      then show ?thesis by simp
    next
      case (Cons b s2')
      with Cons.IH [of s2'] show ?thesis
        by (simp add: upper_char_eq_iff)
    qed
  qed
  then show ?thesis
    by (simp add: differ_only_in_case_def upper_def)
qed

lemma md_name_eq_iff: "md_name c1 d = md_name c2 d \<longleftrightarrow> c1 = c2"
  by (simp add: md_name_def)

lemma same_letter_upper_char: "same_letter c (upper_char c)"
  by (simp add: upper_char_eq_iff [symmetric] upper_char_idem)

lemma differ_only_in_case_upper: "differ_only_in_case s (upper s)"
  unfolding differ_only_in_case_def upper_def
  by (induction s) (simp_all add: same_letter_upper_char)

lemma upper_not_lower: "list_all (\<lambda>c. \<not> is_ascii_lower c) (upper s)"
  by (simp add: upper_def list_all_iff upper_char_not_lower)

lemma first_event_is_lookup:
  assumes "company \<noteq> []"
  shows "\<exists>rest. trace (snd (analyze_company env company w)) =
            trace w @ PathExists (md_name (upper company) (today w)) # rest"
proof (cases "files w (md_name (upper company) (today w))")
  case None
  from trace_analyze_miss [of env "upper company" "md_name (upper company) (today w)"
      "log (PathExists (md_name (upper company) (today w))) w"]
  show ?thesis
    by (simp add: analyze_company_miss [OF assms None])
next
  case (Some report)
  show ?thesis
    by (simp add: analyze_company_hit [OF assms Some])
qed


lemma strip_decomposition:
  "\<exists>l t. s = l @ strip s @ t \<and> list_all is_space l \<and> list_all is_space t"
proof -
  let ?l = "takeWhile is_space s"
  let ?m = "dropWhile is_space s"
  let ?t = "rev (takeWhile is_space (rev ?m))"
  have "rev (takeWhile is_space (rev ?m) @ dropWhile is_space (rev ?m)) = rev (rev ?m)"
    by (simp only: takeWhile_dropWhile_id)
  then have "rev (dropWhile is_space (rev ?m)) @ ?t = ?m"
    by (simp only: rev_append rev_rev_ident)
  then have m: "?m = strip s @ ?t"
    by (simp only: strip_def)
  have "s = ?l @ ?m"
    by simp
  with m have "s = ?l @ strip s @ ?t"
    by simp
  moreover have "list_all is_space ?l"
    by (auto simp add: list_all_iff dest: set_takeWhileD)
  moreover have "list_all is_space ?t"
    by (auto simp add: list_all_iff dest: set_takeWhileD)
  ultimately show ?thesis
    by blast
qed

lemma strip_keeps_token:
  assumes a: "\<not> is_space a" and z: "\<not> is_space z" and ws: "list_all is_space ws"
  shows "\<exists>pre'. strip (pre @ (a # mid @ [z]) @ ws) = pre' @ a # mid @ [z]"
proof -
  have "\<exists>pre'. dropWhile is_space (pre @ (a # mid @ [z]) @ ws) = pre' @ (a # mid @ [z]) @ ws"
  proof (cases "\<forall>c\<in>set pre. is_space c")
    case True
    then have "dropWhile is_space (pre @ (a # mid @ [z]) @ ws) =
        dropWhile is_space ((a # mid @ [z]) @ ws)"
      by (simp only: dropWhile_append2)
    also have "\<dots> = [] @ (a # mid @ [z]) @ ws"
      using a by simp
    finally show ?thesis by blast
  next
    case False
    then obtain x where "x \<in> set pre" "\<not> is_space x"
      by blast
    then have "dropWhile is_space (pre @ (a # mid @ [z]) @ ws) =
        dropWhile is_space pre @ (a # mid @ [z]) @ ws"
      by (rule dropWhile_append1)
    then show ?thesis by blast
  qed
  then obtain pre' where d: "dropWhile is_space (pre @ (a # mid @ [z]) @ ws) =
      pre' @ (a # mid @ [z]) @ ws"
    by blast
  have "rev (pre' @ (a # mid @ [z]) @ ws) = rev ws @ z # (rev mid @ a # rev pre')"
    by simp
  moreover have "dropWhile is_space (rev ws @ z # (rev mid @ a # rev pre')) =
      dropWhile is_space (z # (rev mid @ a # rev pre'))"
    using ws by (intro dropWhile_append2) (simp add: list_all_iff)
  moreover have "dropWhile is_space (z # (rev mid @ a # rev pre')) =
      z # (rev mid @ a # rev pre')"
    using z by simp
  ultimately have "strip (pre @ (a # mid @ [z]) @ ws) = rev (z # (rev mid @ a # rev pre'))"
    using d by (simp add: strip_def)
  then show ?thesis
    by simp
qed

lemma sentinel_shape: "sentinel = CHR ''T'' # ''ERMINAT'' @ [CHR ''E'']"
  by (simp add: sentinel_def)

lemma sentinel_after_strip:
  "suffix sentinel (strip s) \<longleftrightarrow>
     (\<exists>pre ws. s = pre @ sentinel @ ws \<and> list_all is_space ws)"
proof
  assume "suffix sentinel (strip s)"
  then obtain q where q: "strip s = q @ sentinel"
    by (auto simp add: suffix_def)
  from strip_decomposition [of s] obtain l t where
    "s = l @ strip s @ t" "list_all is_space t"
    by blast
  with q have "s = (l @ q) @ sentinel @ t \<and> list_all is_space t"
    by simp
  then show "\<exists>pre ws. s = pre @ sentinel @ ws \<and> list_all is_space ws"
    by blast
next
  assume "\<exists>pre ws. s = pre @ sentinel @ ws \<and> list_all is_space ws"
  then obtain pre ws where s: "s = pre @ sentinel @ ws" and ws: "list_all is_space ws"
    by blast
  have a: "\<not> is_space CHR ''T''" and z: "\<not> is_space CHR ''E''"
    by (simp_all add: is_space_def)
  from strip_keeps_token [OF a z ws, of pre "''ERMINAT''"] s
  obtain pre' where "strip s = pre' @ sentinel"
    unfolding sentinel_shape by auto
  then show "suffix sentinel (strip s)"
    by (simp add: suffix_def)
qed

lemma is_termination_msg_iff:
  "is_termination_msg x = Inr True \<longleftrightarrow>
     (\<exists>pre ws. map_of x ''content'' = Some (PyStr (pre @ sentinel @ ws)) \<and> list_all is_space ws)"
proof (cases "map_of x ''content''")
  case None
  then show ?thesis
    by (simp add: is_termination_msg_def dict_get_def)
next
  case (Some v)
  show ?thesis
  proof (cases v)
    case (PyStr s)
    show ?thesis
    proof (cases "s = []")
      case True
      with Some PyStr show ?thesis
        by (simp add: is_termination_msg_def dict_get_def sentinel_def)
    next
      case False
      with Some PyStr show ?thesis
        by (simp add: is_termination_msg_def dict_get_def sentinel_after_strip)
    qed
  qed (use Some in \<open>simp_all add: is_termination_msg_def dict_get_def\<close>)
qed



lemma orchestrate_done:
  "state c \<noteq> Running \<Longrightarrow> orchestrate turn max_turns c = c"
  by (subst orchestrate.simps) simp

lemma orchestrate_running:
  "state c = Running \<Longrightarrow>
   orchestrate turn max_turns c = orchestrate turn max_turns (orchestrator_step turn max_turns c)"
  by (subst orchestrate.simps) simp

lemma orchestrator_step_cases:
  assumes "state c = Running"
  obtains
    (limit) "max_turns \<le> turnCount c"
      "orchestrator_step turn max_turns c = c\<lparr>state := TerminatedByLimit\<rparr>"
  | (failed) "turnCount c < max_turns"
      "orchestrator_step turn max_turns c = c\<lparr>state := Failed\<rparr>"
  | (broken) b where "turnCount c < max_turns"
      "orchestrator_step turn max_turns c =
         c\<lparr>messages := messages c @ [\<lparr>sender = acting_agent c, body = b\<rparr>],
           turnCount := turnCount c + 1, state := Failed\<rparr>"
  | (final) b where "turnCount c < max_turns" "is_termination_msg b = Inr True"
      "orchestrator_step turn max_turns c =
         c\<lparr>messages := messages c @ [\<lparr>sender = acting_agent c, body = b\<rparr>],
           turnCount := turnCount c + 1, state := TerminatedNormally\<rparr>"
  | (more) b where "turnCount c < max_turns" "is_termination_msg b = Inr False"
      "orchestrator_step turn max_turns c =
         c\<lparr>messages := messages c @ [\<lparr>sender = acting_agent c, body = b\<rparr>],
           turnCount := turnCount c + 1\<rparr>"
proof (cases "max_turns \<le> turnCount c")
  case True
  with assms have "orchestrator_step turn max_turns c = c\<lparr>state := TerminatedByLimit\<rparr>"
    by (simp add: orchestrator_step_def)
  with True show ?thesis by (rule limit)
next
  case False
  then have lt: "turnCount c < max_turns" by simp
  show ?thesis
  proof (cases "turn (acting_agent c) (messages c)")
    case (Inl e)
    with assms False have "orchestrator_step turn max_turns c = c\<lparr>state := Failed\<rparr>"
      by (simp add: orchestrator_step_def)
    with lt show ?thesis by (rule failed)
  next
    case (Inr b)
    show ?thesis
    proof (cases "is_termination_msg b")
      case (Inl e)
      with assms False Inr have "orchestrator_step turn max_turns c =
         c\<lparr>messages := messages c @ [\<lparr>sender = acting_agent c, body = b\<rparr>],
           turnCount := turnCount c + 1, state := Failed\<rparr>"
        by (simp add: orchestrator_step_def Let_def)
      with lt show ?thesis by (rule broken)
    next
      case t: (Inr v)
      show ?thesis
      proof (cases v)
        case True
        with assms False Inr t have "orchestrator_step turn max_turns c =
           c\<lparr>messages := messages c @ [\<lparr>sender = acting_agent c, body = b\<rparr>],
             turnCount := turnCount c + 1, state := TerminatedNormally\<rparr>"
          by (simp add: orchestrator_step_def Let_def)
        with lt t True show ?thesis by (intro final) simp_all
      next
        case f: False
        with assms False Inr t have "orchestrator_step turn max_turns c =
           c\<lparr>messages := messages c @ [\<lparr>sender = acting_agent c, body = b\<rparr>],
             turnCount := turnCount c + 1\<rparr>"
          by (simp add: orchestrator_step_def Let_def)
        with lt t f show ?thesis by (intro more) simp_all
      qed
    qed
  qed
qed


lemma orchestrate_limit:
  "state c = Running \<Longrightarrow> turnCount c \<le> max_turns \<Longrightarrow>
   state (orchestrate turn max_turns c) = TerminatedByLimit \<Longrightarrow>
   turnCount (orchestrate turn max_turns c) = max_turns"
proof (induction turn max_turns c rule: orchestrate.induct)
  case (1 turn max_turns c)
  let ?c1 = "orchestrator_step turn max_turns c"
  have run: "orchestrate turn max_turns c = orchestrate turn max_turns ?c1"
    using "1.prems"(1) by (rule orchestrate_running)
  from "1.prems"(1) show ?case
  proof (cases rule: orchestrator_step_cases [where turn = turn and max_turns = max_turns])
    case limit
    then have "orchestrate turn max_turns ?c1 = ?c1"
      by (simp add: orchestrate_done)
    with run limit "1.prems"(2) show ?thesis
      by simp
  next
    case failed
    then have "orchestrate turn max_turns ?c1 = ?c1"
      by (simp add: orchestrate_done)
    with run failed "1.prems"(3) show ?thesis
      by simp
  next
    case (broken b)
    then have "orchestrate turn max_turns ?c1 = ?c1"
      by (simp add: orchestrate_done)
    with run broken "1.prems"(3) show ?thesis
      by simp
  next
    case (final b)
    then have "orchestrate turn max_turns ?c1 = ?c1"
      by (simp add: orchestrate_done)
    with run final "1.prems"(3) show ?thesis
      by simp
  next
    case (more b)
    then have r: "state ?c1 = Running" and t: "turnCount ?c1 \<le> max_turns"
      using "1.prems"(1) by simp_all
    from "1.prems"(3) run have "state (orchestrate turn max_turns ?c1) = TerminatedByLimit"
      by simp
    from "1.IH" [OF "1.prems"(1) r t this] run show ?thesis
      by simp
  qed
qed

lemma orchestrate_normal:
  "state c = Running \<Longrightarrow>
   state (orchestrate turn max_turns c) = TerminatedNormally \<Longrightarrow>
   \<exists>earlier last.
      messages (orchestrate turn max_turns c) = messages c @ earlier @ [last]
      \<and> is_termination_msg (body last) = Inr True
      \<and> list_all (\<lambda>m. is_termination_msg (body m) = Inr False) earlier
      \<and> turnCount (orchestrate turn max_turns c) = turnCount c + length earlier + 1"
proof (induction turn max_turns c rule: orchestrate.induct)
  case (1 turn max_turns c)
  let ?c1 = "orchestrator_step turn max_turns c"
  have run: "orchestrate turn max_turns c = orchestrate turn max_turns ?c1"
    using "1.prems"(1) by (rule orchestrate_running)
  from "1.prems"(1) show ?case
  proof (cases rule: orchestrator_step_cases [where turn = turn and max_turns = max_turns])
    case limit
    then have "orchestrate turn max_turns ?c1 = ?c1"
      by (simp add: orchestrate_done)
    with run limit "1.prems"(2) show ?thesis
      by simp
  next
    case failed
    then have "orchestrate turn max_turns ?c1 = ?c1"
      by (simp add: orchestrate_done)
    with run failed "1.prems"(2) show ?thesis
      by simp
  next
    case (broken b)
    then have "orchestrate turn max_turns ?c1 = ?c1"
      by (simp add: orchestrate_done)
    with run broken "1.prems"(2) show ?thesis
      by simp
  next
    case (final b)
    let ?last = "\<lparr>sender = acting_agent c, body = b\<rparr>"
    from final have "orchestrate turn max_turns ?c1 = ?c1"
      by (simp add: orchestrate_done)
    with run final have
      "messages (orchestrate turn max_turns c) = messages c @ [] @ [?last]"
      "is_termination_msg (body ?last) = Inr True"
      "list_all (\<lambda>m. is_termination_msg (body m) = Inr False) []"
      "turnCount (orchestrate turn max_turns c) = turnCount c + length ([] :: message list) + 1"
      by simp_all
    then show ?thesis
      by blast
  next
    case (more b)
    let ?m = "\<lparr>sender = acting_agent c, body = b\<rparr>"
    from more have r: "state ?c1 = Running"
      using "1.prems"(1) by simp
    from "1.prems"(2) run have "state (orchestrate turn max_turns ?c1) = TerminatedNormally"
      by simp
    from "1.IH" [OF "1.prems"(1) r this] obtain earlier last where
      e: "messages (orchestrate turn max_turns ?c1) = messages ?c1 @ earlier @ [last]"
         "is_termination_msg (body last) = Inr True"
         "list_all (\<lambda>m. is_termination_msg (body m) = Inr False) earlier"
         "turnCount (orchestrate turn max_turns ?c1) = turnCount ?c1 + length earlier + 1"
      by blast
    have "messages (orchestrate turn max_turns c) = messages c @ (?m # earlier) @ [last]"
      using run e(1) more by simp
    moreover have "list_all (\<lambda>m. is_termination_msg (body m) = Inr False) (?m # earlier)"
      using e(3) more by simp
    moreover have "turnCount (orchestrate turn max_turns c) =
        turnCount c + length (?m # earlier) + 1"
      using run e(4) more by simp
    ultimately show ?thesis
      using e(2) by blast
  qed
qed

section \<open>The claims\<close>

text \<open>
  C10. For the empty subject, which is the only falsy value of a text box,
  \<^verbatim>\<open>analyze_company\<close> returns \<^verbatim>\<open>None\<close> and leaves the world as it was: the
  trace gets no event, so there is no existence check, no call of the
  orchestrator, no read and no write.
\<close>

theorem empty_subject_does_nothing:
  "analyze_company env [] w = (Inr None, w)"
  by (simp add: analyze_company_def)

text \<open>
  C3. Every request for a non-empty subject starts with the existence check of
  its report file, before anything else happens; and when the file exists, the
  request returns its content, calls the orchestrator not at all, and changes
  no file.
\<close>

theorem cached_report_served_without_orchestration:
  assumes "company \<noteq> []"
  shows "(\<exists>rest. trace (snd (analyze_company env company w)) =
            trace w @ PathExists (md_name (upper company) (today w)) # rest)
       \<and> (\<forall>report. files w (md_name (upper company) (today w)) = Some report \<longrightarrow>
            (\<exists>w'. analyze_company env company w = (Inr (Some (PyStr report)), w')
               \<and> chat_calls w' = chat_calls w
               \<and> files w' = files w
               \<and> trace w' = trace w @ [PathExists (md_name (upper company) (today w)),
                                        FileRead (md_name (upper company) (today w))]))"
proof (intro conjI allI impI)
  let ?md = "md_name (upper company) (today w)"
  show "\<exists>rest. trace (snd (analyze_company env company w)) = trace w @ PathExists ?md # rest"
  proof (cases "files w ?md")
    case None
    from trace_analyze_miss [of env "upper company" ?md "log (PathExists ?md) w"]
    show ?thesis
      by (simp add: analyze_company_miss [OF assms None])
  next
    case (Some report)
    show ?thesis
      by (simp add: analyze_company_hit [OF assms Some])
  qed
next
  fix report
  let ?md = "md_name (upper company) (today w)"
  assume "files w ?md = Some report"
  then show "\<exists>w'. analyze_company env company w = (Inr (Some (PyStr report)), w')
               \<and> chat_calls w' = chat_calls w
               \<and> files w' = files w
               \<and> trace w' = trace w @ [PathExists ?md, FileRead ?md]"
    by (simp add: analyze_company_hit [OF assms])
qed



theorem cached_report_served_without_orchestration_witness:
  "''acme'' \<noteq> []
   \<and> files cached_world (md_name (upper ''acme'') (today cached_world)) = Some ''### ACME: flat''
   \<and> fst (analyze_company failing_env ''acme'' cached_world) =
       Inr (Some (PyStr ''### ACME: flat''))
   \<and> chat_calls (snd (analyze_company failing_env ''acme'' cached_world)) =
       chat_calls cached_world"
proof -
  have name: "md_name (upper ''acme'') (today cached_world) = ''result_ACME_2024-05-01.md''"
    by code_simp
  have entry: "files cached_world (md_name (upper ''acme'') (today cached_world)) =
      Some ''### ACME: flat''"
    unfolding name by (simp add: cached_world_def)
  have ne: "''acme'' \<noteq> []"
    by simp
  from cached_report_served_without_orchestration [OF ne, of failing_env cached_world] entry
  show ?thesis
    by auto
qed

text \<open>
  C1, as the code has it. When a request returns a report, the same request
  made again on that day calls the orchestrator no more (one call at most over
  both requests), changes no file, and returns the text of the report file: the
  first report itself when the first request was already served from the file;
  and when the first request produced the report, the first report followed by
  a newline, as a read in text mode returns it (which is that very text when the
  report holds no carriage return).
\<close>

theorem second_request_served_from_cache:
  assumes first: "analyze_company env company w = (Inr (Some r1), w1)"
  shows "chat_calls w1 \<le> chat_calls w + 1
       \<and> (\<exists>s w2. r1 = PyStr s
            \<and> analyze_company env company w1 =
                (Inr (Some (PyStr
                   (if files w (md_name (upper company) (today w)) = None
                    then read_back (s @ ''\<newline>'') else s))), w2)
            \<and> chat_calls w2 = chat_calls w1
            \<and> files w2 = files w1
            \<and> (CHR 0x0D \<notin> set s \<longrightarrow> read_back (s @ ''\<newline>'') = s @ ''\<newline>''))"
proof -
  let ?md = "md_name (upper company) (today w)"
  from success_leaves_entry [OF first] obtain s where
    s: "company \<noteq> []" "today w1 = today w" "chat_calls w1 \<le> chat_calls w + 1" "r1 = PyStr s"
       "files w1 ?md = Some (if files w ?md = None then read_back (s @ ''\<newline>'') else s)"
    by blast
  have again: "files w1 (md_name (upper company) (today w1)) =
      Some (if files w ?md = None then read_back (s @ ''\<newline>'') else s)"
    using s by simp
  have plain: "CHR 0x0D \<notin> set s \<longrightarrow> read_back (s @ ''\<newline>'') = s @ ''\<newline>''"
    by (simp add: read_back_plain)
  show ?thesis
    using s plain analyze_company_hit [OF s(1) again, of env] by simp
qed

theorem second_request_served_from_cache_witness:
  "analyze_company sample_env ''acme'' fresh_world =
     (Inr (Some (PyStr ''### ACME: up by 2%'')), snd (analyze_company sample_env ''acme'' fresh_world))
   \<and> CHR 0x0D \<notin> set ''### ACME: up by 2%''
   \<and> fst (analyze_company sample_env ''acme''
            (snd (analyze_company sample_env ''acme'' fresh_world))) =
       Inr (Some (PyStr ''### ACME: up by 2%\<newline>''))
   \<and> chat_calls (snd (analyze_company sample_env ''acme''
            (snd (analyze_company sample_env ''acme'' fresh_world)))) \<le> 1"
proof -
  let ?w1 = "snd (analyze_company sample_env ''acme'' fresh_world)"
  have "fst (analyze_company sample_env ''acme'' fresh_world) =
      Inr (Some (PyStr ''### ACME: up by 2%''))"
    by code_simp
  then have first: "analyze_company sample_env ''acme'' fresh_world =
      (Inr (Some (PyStr ''### ACME: up by 2%'')), ?w1)"
    by (simp add: prod_eq_iff)
  have none: "files fresh_world (md_name (upper ''acme'') (today fresh_world)) = None"
    by (simp add: fresh_world_def)
  have zero: "chat_calls fresh_world = 0"
    by (simp add: fresh_world_def chat_calls_def)
  have plain: "CHR 0x0D \<notin> set ''### ACME: up by 2%''"
    by simp
  from second_request_served_from_cache [OF first] none zero first plain
  show ?thesis
    by auto
qed

text \<open>
  C1, as the specification states it, fails: with an orchestrator whose
  transcript holds the report \<^verbatim>\<open>### ACME: up by 2%\<close>, the first request for
  \<^verbatim>\<open>acme\<close> returns that text and the second returns it with a newline added.
\<close>

theorem second_report_differs_from_first:
  "fst (analyze_company sample_env ''acme''
          (snd (analyze_company sample_env ''acme'' fresh_world)))
   \<noteq> fst (analyze_company sample_env ''acme'' fresh_world)"
  by code_simp




text \<open>
  C7. When the report file is absent and the orchestrator fails, the request
  fails with the orchestrator's error and no file is written or changed; the
  same request made again finds no entry and calls the orchestrator again.
  Whenever a request changes a file at all, its orchestrator call had returned
  a result.
\<close>

theorem failed_orchestration_caches_nothing:
  assumes ne: "company \<noteq> []"
  shows "(files w (md_name (upper company) (today w)) = None
          \<and> initiate_chat env (chat_calls w) (chat_message (upper company) (today w)) = Inl e
          \<longrightarrow> (\<exists>w'. analyze_company env company w = (Inl e, w')
                 \<and> files w' = files w
                 \<and> chat_calls w' = chat_calls w + 1
                 \<and> chat_calls (snd (analyze_company env company w')) = chat_calls w' + 1))
       \<and> (files (snd (analyze_company env company w)) \<noteq> files w
          \<longrightarrow> (\<exists>response. initiate_chat env (chat_calls w)
                   (chat_message (upper company) (today w)) = Inr response))"
proof (intro conjI impI)
  let ?md = "md_name (upper company) (today w)"
  let ?w0 = "log (PathExists ?md) w"
  assume a: "files w ?md = None
     \<and> initiate_chat env (chat_calls w) (chat_message (upper company) (today w)) = Inl e"
  let ?w' = "log (InitiateChat (chat_message (upper company) (today w)))
               (log CacheDisk (log (PathExists ?md) ?w0))"
  have none0: "files ?w0 (md_name (upper company) (today ?w0)) = None"
    using a by simp
  have fail0: "initiate_chat env (chat_calls ?w0) (chat_message (upper company) (today ?w0)) = Inl e"
    using a by simp
  have run: "analyze_company env company w = (Inl e, ?w')"
    using analyze_company_miss [OF ne, of w env] a analyze_miss_failed_chat [OF none0 fail0]
    by simp
  have none': "files ?w' (md_name (upper company) (today ?w')) = None"
    using a by simp
  let ?w1 = "log (PathExists (md_name (upper company) (today ?w'))) ?w'"
  have none1: "files ?w1 (md_name (upper company) (today ?w1)) = None"
    using a by simp
  have again: "chat_calls (snd (analyze_company env company ?w')) = chat_calls ?w' + 1"
    using analyze_company_miss [OF ne none', of env] analyze_miss_calls [OF none1, of env]
    by simp
  show "\<exists>w'. analyze_company env company w = (Inl e, w')
                 \<and> files w' = files w
                 \<and> chat_calls w' = chat_calls w + 1
                 \<and> chat_calls (snd (analyze_company env company w')) = chat_calls w' + 1"
    using run again by simp
next
  let ?md = "md_name (upper company) (today w)"
  let ?w0 = "log (PathExists ?md) w"
  assume changed: "files (snd (analyze_company env company w)) \<noteq> files w"
  show "\<exists>response. initiate_chat env (chat_calls w)
                   (chat_message (upper company) (today w)) = Inr response"
  proof (cases "files w ?md")
    case None
    have none0: "files ?w0 (md_name (upper company) (today ?w0)) = None"
      using None by simp
    from changed analyze_company_miss [OF ne None, of env]
    have "files (snd (analyze_miss env (upper company) (md_name (upper company) (today ?w0)) ?w0))
        \<noteq> files ?w0"
      by simp
    from analyze_miss_files_changed [OF none0 this] show ?thesis
      by simp
  next
    case (Some report)
    from changed analyze_company_hit [OF ne Some, of env] show ?thesis
      by simp
  qed
qed

theorem failed_orchestration_caches_nothing_witness:
  "''acme'' \<noteq> []
   \<and> files fresh_world (md_name (upper ''acme'') (today fresh_world)) = None
   \<and> initiate_chat failing_env (chat_calls fresh_world)
        (chat_message (upper ''acme'') (today fresh_world)) = Inl (ChatError ''timeout'')
   \<and> fst (analyze_company failing_env ''acme'' fresh_world) = Inl (ChatError ''timeout'')
   \<and> files (snd (analyze_company failing_env ''acme'' fresh_world)) = files fresh_world
   \<and> files (snd (analyze_company sample_env ''acme'' fresh_world)) \<noteq> files fresh_world
   \<and> (\<exists>response. initiate_chat sample_env (chat_calls fresh_world)
          (chat_message (upper ''acme'') (today fresh_world)) = Inr response)"
proof -
  have ne: "''acme'' \<noteq> []"
    by simp
  have none: "files fresh_world (md_name (upper ''acme'') (today fresh_world)) = None"
    by (simp add: fresh_world_def)
  have fail: "initiate_chat failing_env (chat_calls fresh_world)
        (chat_message (upper ''acme'') (today fresh_world)) = Inl (ChatError ''timeout'')"
    by (simp add: failing_env_def)
  have "files (snd (analyze_company sample_env ''acme'' fresh_world))
      ''result_ACME_2024-05-01.md'' = Some ''### ACME: up by 2%\<newline>''"
    by code_simp
  then have changed: "files (snd (analyze_company sample_env ''acme'' fresh_world))
      \<noteq> files fresh_world"
    by (auto simp add: fresh_world_def)
  from failed_orchestration_caches_nothing
         [OF ne, of fresh_world failing_env "ChatError ''timeout''"]
       failed_orchestration_caches_nothing
         [OF ne, of fresh_world sample_env "ChatError ''timeout''"]
       none fail changed
  show ?thesis
    by auto
qed

text \<open>
  C9. A text that \<^verbatim>\<open>json.loads\<close> rejects makes \<^verbatim>\<open>filter_user_content\<close> raise.
  When the report file exists at the inner check,
  \<^verbatim>\<open>initiate_chat_and_save_response\<close> returns its text as it is. So when the
  file is absent at the existence check of \<^verbatim>\<open>analyze_company\<close> and another
  request puts a text there that is not JSON before the inner check, the request
  raises the decoding error instead of returning the report; it calls the
  orchestrator not at all and writes nothing.
\<close>

theorem concurrent_report_file_breaks_request:
  "(json_loads env raw = Inl e \<longrightarrow> filter_user_content env raw = Inl e)
   \<and> (files w1 (md_name c (today w1)) = Some raw \<longrightarrow>
        fst (initiate_chat_and_save_response env c w1) = Inr raw)
   \<and> (company \<noteq> []
        \<and> files w (md_name (upper company) (today w)) = None
        \<and> today (other (log (PathExists (md_name (upper company) (today w))) w)) = today w
        \<and> files (other (log (PathExists (md_name (upper company) (today w))) w))
             (md_name (upper company) (today w)) = Some raw
        \<and> json_loads env raw = Inl e
       \<longrightarrow> (\<exists>w'. analyze_company_interleaved other env company w = (Inl e, w')
              \<and> files w' = files (other (log (PathExists (md_name (upper company) (today w))) w))
              \<and> chat_calls w' =
                  chat_calls (other (log (PathExists (md_name (upper company) (today w))) w))))"
proof (intro conjI impI)
  assume "json_loads env raw = Inl e"
  then show "filter_user_content env raw = Inl e"
    by (rule filter_user_content_undecodable)
next
  assume "files w1 (md_name c (today w1)) = Some raw"
  then show "fst (initiate_chat_and_save_response env c w1) = Inr raw"
    by (simp add: initiate_hit)
next
  let ?md = "md_name (upper company) (today w)"
  let ?w1 = "other (log (PathExists ?md) w)"
  assume a: "company \<noteq> [] \<and> files w ?md = None \<and> today ?w1 = today w
     \<and> files ?w1 ?md = Some raw \<and> json_loads env raw = Inl e"
  then have there: "files ?w1 (md_name (upper company) (today ?w1)) = Some raw"
    by simp
  have "analyze_company_interleaved other env company w =
      analyze_miss env (upper company) ?md ?w1"
    using a by (simp add: analyze_company_interleaved_def get_current_date_def
        os_path_exists_def Let_def)
  also have "\<dots> = (Inl e, log (FileRead ?md) (log (PathExists ?md) ?w1))"
    using a initiate_hit [OF there, of env] filter_user_content_undecodable [of env raw e]
    by (simp add: analyze_miss_def)
  finally show "\<exists>w'. analyze_company_interleaved other env company w = (Inl e, w')
      \<and> files w' = files ?w1 \<and> chat_calls w' = chat_calls ?w1"
    by simp
qed

theorem concurrent_report_file_breaks_request_witness:
  "''acme'' \<noteq> []
   \<and> files fresh_world (md_name (upper ''acme'') (today fresh_world)) = None
   \<and> json_loads sample_env ''No relevant content found.\<newline>'' = Inl JSONDecodeError
   \<and> filter_user_content sample_env ''No relevant content found.\<newline>'' = Inl JSONDecodeError
   \<and> fst (analyze_company_interleaved
            (\<lambda>w. snd (save_to_md (PyStr fallback) ''result_ACME_2024-05-01.md'' w))
            sample_env ''acme'' fresh_world) = Inl JSONDecodeError"
proof -
  let ?other = "\<lambda>w. snd (save_to_md (PyStr fallback) ''result_ACME_2024-05-01.md'' w)"
  let ?raw = "''No relevant content found.\<newline>''"
  have name: "md_name (upper ''acme'') (today fresh_world) = ''result_ACME_2024-05-01.md''"
    by code_simp
  have ne: "''acme'' \<noteq> []"
    by simp
  have none: "files fresh_world (md_name (upper ''acme'') (today fresh_world)) = None"
    by (simp add: fresh_world_def)
  have bad: "json_loads sample_env ?raw = Inl JSONDecodeError"
    by code_simp
  have day: "today (?other (log (PathExists (md_name (upper ''acme'') (today fresh_world)))
      fresh_world)) = today fresh_world"
    by (simp add: save_to_md_facts)
  have there: "files (?other (log (PathExists (md_name (upper ''acme'') (today fresh_world)))
      fresh_world)) (md_name (upper ''acme'') (today fresh_world)) = Some ?raw"
    unfolding name by code_simp
  from concurrent_report_file_breaks_request
     [where env = sample_env and raw = ?raw and e = JSONDecodeError and company = "''acme''"
        and w = fresh_world and other = ?other and ?w1.0 = fresh_world and c = "[]"]
     ne none bad day there
  have "filter_user_content sample_env ?raw = Inl JSONDecodeError"
    and "\<exists>w'. analyze_company_interleaved ?other sample_env ''acme'' fresh_world =
          (Inl JSONDecodeError, w')"
    by blast+
  with ne none bad show ?thesis
    by auto
qed

text \<open>
  C4. For a text that decodes to the list of entries of a transcript,
  \<^verbatim>\<open>filter_user_content\<close> raises nothing and returns the content of the first
  entry of role \<^verbatim>\<open>user\<close> whose content contains \<^verbatim>\<open>###\<close>, or the fixed text
  \<^verbatim>\<open>No relevant content found.\<close> when there is none.
\<close>

theorem first_user_report_extracted:
  assumes "json_loads env raw = Inr (PyList entries)"
    and "list_all is_message entries"
  shows "filter_user_content env raw =
     Inr (case find is_report entries of
            Some entry \<Rightarrow> content_of entry
          | None \<Rightarrow> PyStr fallback)"
  using assms by (simp add: filter_user_content_def iterate_def scan_entries_messages)

theorem first_user_report_extracted_witness:
  "json_loads sample_env (json_dumps sample_env sample_history) = Inr sample_history
   \<and> filter_user_content sample_env (json_dumps sample_env sample_history) =
       Inr (PyStr ''### ACME: up by 2%'')
   \<and> json_loads sample_env (json_dumps sample_env quiet_history) = Inr quiet_history
   \<and> filter_user_content sample_env (json_dumps sample_env quiet_history) =
       Inr (PyStr ''No relevant content found.'')"
proof -
  let ?es = "[PyDict [(''content'', PyStr ''Report in Chinese.''), (''role'', PyStr ''assistant'')],
      PyDict [(''content'', PyStr ''### ACME: up by 2%''), (''role'', PyStr ''user'')]]"
  let ?qs = "[PyDict [(''content'', PyStr ''Report in Chinese.''), (''role'', PyStr ''assistant'')],
      PyDict [(''content'', PyNone), (''role'', PyStr ''assistant'')],
      PyDict [(''content'', PyStr ''No news today.''), (''role'', PyStr ''user'')]]"
  have l1: "json_loads sample_env (json_dumps sample_env sample_history) = Inr (PyList ?es)"
    by code_simp
  have m1: "list_all is_message ?es"
    by code_simp
  have f1: "(case find is_report ?es of Some entry \<Rightarrow> content_of entry | None \<Rightarrow> PyStr fallback)
      = PyStr ''### ACME: up by 2%''"
    by code_simp
  have l2: "json_loads sample_env (json_dumps sample_env quiet_history) = Inr (PyList ?qs)"
    by code_simp
  have m2: "list_all is_message ?qs"
    by code_simp
  have f2: "(case find is_report ?qs of Some entry \<Rightarrow> content_of entry | None \<Rightarrow> PyStr fallback)
      = PyStr ''No relevant content found.''"
    by code_simp
  from first_user_report_extracted [OF l1 m1] first_user_report_extracted [OF l2 m2] f1 f2 l1 l2
  show ?thesis
    by (simp add: sample_history_def quiet_history_def)
qed

text \<open>
  C8, as the specification states it, fails in its last part: the subjects
  \<^verbatim>\<open>Acme\<close> and \<^verbatim>\<open>aCME\<close> differ only in letter case, and on one day the
  request for the first returns the report and the request for the second
  returns it with a newline added.
\<close>

theorem second_subject_report_differs_from_first:
  "differ_only_in_case ''Acme'' ''aCME''
   \<and> fst (analyze_company sample_env ''aCME''
            (snd (analyze_company sample_env ''Acme'' fresh_world)))
       \<noteq> fst (analyze_company sample_env ''Acme'' fresh_world)"
  by code_simp

text \<open>
  C8, as the code has it. \<^verbatim>\<open>analyze_company\<close> replaces the subject by
  \<^verbatim>\<open>company.upper()\<close> before anything else: the first event of a request is
  the existence check of the report file named after the upper-case form. That
  form differs from the subject only in letter case and holds no lower-case
  letter. Two subjects have the same report file exactly when they differ only
  in letter case. For two such subjects a request in the same world has the
  same outcome; and once a request for the first has returned a report, a
  request for the second is served from the report file without a call of the
  orchestrator: it returns the first report itself when the first request was
  served from the file, and the first report followed by a newline, as read
  back, when the first request produced it.
\<close>

theorem subjects_share_report_file_iff_same_up_to_case:
  "(md_name (upper s1) d = md_name (upper s2) d \<longleftrightarrow> differ_only_in_case s1 s2)
   \<and> differ_only_in_case s1 (upper s1)
   \<and> list_all (\<lambda>c. \<not> is_ascii_lower c) (upper s1)
   \<and> (s1 \<noteq> [] \<longrightarrow>
        (\<exists>rest. trace (snd (analyze_company env s1 w)) =
           trace w @ PathExists (md_name (upper s1) (today w)) # rest))
   \<and> (differ_only_in_case s1 s2 \<longrightarrow>
        analyze_company env s1 w = analyze_company env s2 w
        \<and> (analyze_company env s1 w = (Inr (Some r), w1) \<longrightarrow>
             (\<exists>t w2. r = PyStr t
                \<and> analyze_company env s2 w1 =
                    (Inr (Some (PyStr
                       (if files w (md_name (upper s1) (today w)) = None
                        then read_back (t @ ''\<newline>'') else t))), w2)
                \<and> chat_calls w2 = chat_calls w1)))"
proof (intro conjI impI)
  show "md_name (upper s1) d = md_name (upper s2) d \<longleftrightarrow> differ_only_in_case s1 s2"
    by (simp only: md_name_eq_iff upper_eq_iff)
  show "differ_only_in_case s1 (upper s1)"
    by (rule differ_only_in_case_upper)
  show "list_all (\<lambda>c. \<not> is_ascii_lower c) (upper s1)"
    by (rule upper_not_lower)
next
  assume "s1 \<noteq> []"
  then show "\<exists>rest. trace (snd (analyze_company env s1 w)) =
           trace w @ PathExists (md_name (upper s1) (today w)) # rest"
    by (rule first_event_is_lookup)
next
  assume "differ_only_in_case s1 s2"
  then have u: "upper s1 = upper s2"
    by (simp only: upper_eq_iff)
  then show "analyze_company env s1 w = analyze_company env s2 w"
    by (rule analyze_company_upper)
next
  assume "differ_only_in_case s1 s2"
  then have u: "upper s1 = upper s2"
    by (simp only: upper_eq_iff)
  assume first: "analyze_company env s1 w = (Inr (Some r), w1)"
  let ?md = "md_name (upper s1) (today w)"
  from success_leaves_entry [OF first] obtain t where
    s: "s1 \<noteq> []" "today w1 = today w" "r = PyStr t"
       "files w1 ?md = Some (if files w ?md = None then read_back (t @ ''\<newline>'') else t)"
    by blast
  then have again: "files w1 (md_name (upper s1) (today w1)) =
      Some (if files w ?md = None then read_back (t @ ''\<newline>'') else t)"
    by simp
  have same: "analyze_company env s2 w1 = analyze_company env s1 w1"
    by (rule analyze_company_upper) (simp add: u)
  have "chat_calls (log (FileRead (md_name (upper s1) (today w1)))
       (log (PathExists (md_name (upper s1) (today w1))) w1)) = chat_calls w1"
    by simp
  with s(3) same analyze_company_hit [OF s(1) again, of env]
  show "\<exists>t w2. r = PyStr t
                \<and> analyze_company env s2 w1 =
                    (Inr (Some (PyStr
                       (if files w (md_name (upper s1) (today w)) = None
                        then read_back (t @ ''\<newline>'') else t))), w2)
                \<and> chat_calls w2 = chat_calls w1"
    by simp
qed

theorem subjects_share_report_file_iff_same_up_to_case_witness:
  "differ_only_in_case ''Acme'' ''aCME''
   \<and> md_name (upper ''Acme'') ''2024-05-01'' = ''result_ACME_2024-05-01.md''
   \<and> md_name (upper ''Acme'') ''2024-05-01'' = md_name (upper ''aCME'') ''2024-05-01''
   \<and> ''Acme'' \<noteq> []
   \<and> analyze_company sample_env ''Acme'' fresh_world =
       (Inr (Some (PyStr ''### ACME: up by 2%'')),
        snd (analyze_company sample_env ''Acme'' fresh_world))
   \<and> fst (analyze_company sample_env ''aCME''
            (snd (analyze_company sample_env ''Acme'' fresh_world))) =
       Inr (Some (PyStr ''### ACME: up by 2%\<newline>''))"
proof -
  let ?w1 = "snd (analyze_company sample_env ''Acme'' fresh_world)"
  have d: "differ_only_in_case ''Acme'' ''aCME''"
    by code_simp
  have key: "md_name (upper ''Acme'') ''2024-05-01'' = ''result_ACME_2024-05-01.md''"
    by code_simp
  have "fst (analyze_company sample_env ''Acme'' fresh_world) =
      Inr (Some (PyStr ''### ACME: up by 2%''))"
    by code_simp
  then have first: "analyze_company sample_env ''Acme'' fresh_world =
      (Inr (Some (PyStr ''### ACME: up by 2%'')), ?w1)"
    by (simp add: prod_eq_iff)
  have none: "files fresh_world (md_name (upper ''Acme'') (today fresh_world)) = None"
    by (simp add: fresh_world_def)
  have rb: "read_back ''### ACME: up by 2%\<newline>'' = ''### ACME: up by 2%\<newline>''"
    by code_simp
  from subjects_share_report_file_iff_same_up_to_case
     [where ?s1.0 = "''Acme''" and d = "''2024-05-01''" and ?s2.0 = "''aCME''"
        and env = sample_env and w = fresh_world and r = "PyStr ''### ACME: up by 2%''"
        and ?w1.0 = "snd (analyze_company sample_env ''Acme'' fresh_world)"]
  have keys: "md_name (upper ''Acme'') ''2024-05-01'' = md_name (upper ''aCME'') ''2024-05-01''
        \<longleftrightarrow> differ_only_in_case ''Acme'' ''aCME''"
    and served: "differ_only_in_case ''Acme'' ''aCME'' \<longrightarrow>
        (analyze_company sample_env ''Acme'' fresh_world =
            (Inr (Some (PyStr ''### ACME: up by 2%'')), ?w1) \<longrightarrow>
         (\<exists>t w2. PyStr ''### ACME: up by 2%'' = PyStr t
            \<and> analyze_company sample_env ''aCME'' ?w1 =
                (Inr (Some (PyStr
                   (if files fresh_world (md_name (upper ''Acme'') (today fresh_world)) = None
                    then read_back (t @ ''\<newline>'') else t))), w2)
            \<and> chat_calls w2 = chat_calls ?w1))"
    by blast+
  from served d first none rb
  have "fst (analyze_company sample_env ''aCME'' ?w1) =
      Inr (Some (PyStr ''### ACME: up by 2%\<newline>''))"
    by auto
  with d key keys first show ?thesis
    by simp
qed

text \<open>
  C5, as the specification states it, fails in its second half: the content
  \<^verbatim>\<open>TERMINATE\<close> followed by a newline does not end with the sentinel, and yet
  \<^verbatim>\<open>is_termination_msg\<close> holds of it and the step that appends it ends the
  dialogue.
\<close>

theorem trailing_white_space_still_terminates:
  "\<not> suffix sentinel ''The report is done. TERMINATE\<newline>''
   \<and> is_termination_msg [(''content'', PyStr ''The report is done. TERMINATE\<newline>'')] = Inr True
   \<and> state (orchestrate finishing_turn 4 (initial_conversation ''ACME'' ''Report on ACME.''))
       = TerminatedNormally"
  by code_simp

text \<open>
  C5, as the code has it. \<^verbatim>\<open>is_termination_msg\<close> holds of a message exactly
  when its content is a string made of some text, the sentinel
  \<^verbatim>\<open>TERMINATE\<close>, and then white space only (the content is stripped before
  the test). A run that ends as \<open>TerminatedNormally\<close> has appended a last message
  of which it holds, after messages of which it does not hold, one turn each;
  and a step that appends a message ends the dialogue if it holds of the message
  and leaves it running if it does not.
\<close>

theorem dialogue_ends_at_sentinel_message:
  "(is_termination_msg x = Inr True \<longleftrightarrow>
      (\<exists>pre ws. map_of x ''content'' = Some (PyStr (pre @ sentinel @ ws))
          \<and> list_all is_space ws))
   \<and> (state c = Running \<and> state (orchestrate turn max_turns c) = TerminatedNormally \<longrightarrow>
        (\<exists>earlier last.
           messages (orchestrate turn max_turns c) = messages c @ earlier @ [last]
           \<and> is_termination_msg (body last) = Inr True
           \<and> list_all (\<lambda>m. is_termination_msg (body m) = Inr False) earlier
           \<and> turnCount (orchestrate turn max_turns c) = turnCount c + length earlier + 1))
   \<and> (state c = Running \<and> turnCount c < max_turns
        \<and> turn (acting_agent c) (messages c) = Inr b \<longrightarrow>
        messages (orchestrator_step turn max_turns c) =
            messages c @ [\<lparr>sender = acting_agent c, body = b\<rparr>]
        \<and> (is_termination_msg b = Inr True \<longrightarrow>
             state (orchestrator_step turn max_turns c) = TerminatedNormally)
        \<and> (is_termination_msg b = Inr False \<longrightarrow>
             state (orchestrator_step turn max_turns c) = Running))"
proof (intro conjI impI)
  show "is_termination_msg x = Inr True \<longleftrightarrow>
      (\<exists>pre ws. map_of x ''content'' = Some (PyStr (pre @ sentinel @ ws))
          \<and> list_all is_space ws)"
    by (rule is_termination_msg_iff)
next
  assume "state c = Running \<and> state (orchestrate turn max_turns c) = TerminatedNormally"
  then show "\<exists>earlier last.
           messages (orchestrate turn max_turns c) = messages c @ earlier @ [last]
           \<and> is_termination_msg (body last) = Inr True
           \<and> list_all (\<lambda>m. is_termination_msg (body m) = Inr False) earlier
           \<and> turnCount (orchestrate turn max_turns c) = turnCount c + length earlier + 1"
    using orchestrate_normal [of c turn max_turns] by blast
next
  assume a: "state c = Running \<and> turnCount c < max_turns
        \<and> turn (acting_agent c) (messages c) = Inr b"
  then show "messages (orchestrator_step turn max_turns c) =
            messages c @ [\<lparr>sender = acting_agent c, body = b\<rparr>]"
    by (simp add: orchestrator_step_def Let_def split: sum.splits bool.splits)
next
  assume a: "state c = Running \<and> turnCount c < max_turns
        \<and> turn (acting_agent c) (messages c) = Inr b"
    and "is_termination_msg b = Inr True"
  then show "state (orchestrator_step turn max_turns c) = TerminatedNormally"
    by (simp add: orchestrator_step_def Let_def)
next
  assume a: "state c = Running \<and> turnCount c < max_turns
        \<and> turn (acting_agent c) (messages c) = Inr b"
    and "is_termination_msg b = Inr False"
  then show "state (orchestrator_step turn max_turns c) = Running"
    by (simp add: orchestrator_step_def Let_def)
qed

theorem dialogue_ends_at_sentinel_message_witness:
  "state (initial_conversation ''ACME'' ''Report on ACME.'') = Running
   \<and> state (orchestrate finishing_turn 4 (initial_conversation ''ACME'' ''Report on ACME.''))
       = TerminatedNormally
   \<and> turnCount (orchestrate finishing_turn 4 (initial_conversation ''ACME'' ''Report on ACME.''))
       = 3
   \<and> (\<exists>earlier last.
        messages (orchestrate finishing_turn 4 (initial_conversation ''ACME'' ''Report on ACME.''))
          = messages (initial_conversation ''ACME'' ''Report on ACME.'') @ earlier @ [last]
        \<and> is_termination_msg (body last) = Inr True
        \<and> list_all (\<lambda>m. is_termination_msg (body m) = Inr False) earlier)"
proof -
  let ?c = "initial_conversation ''ACME'' ''Report on ACME.''"
  have r: "state ?c = Running"
    by (simp add: initial_conversation_def)
  have n: "state (orchestrate finishing_turn 4 ?c) = TerminatedNormally"
    by code_simp
  have t: "turnCount (orchestrate finishing_turn 4 ?c) = 3"
    by code_simp
  from dialogue_ends_at_sentinel_message [of _ ?c finishing_turn 4] r n
  have "\<exists>earlier last.
        messages (orchestrate finishing_turn 4 ?c) = messages ?c @ earlier @ [last]
        \<and> is_termination_msg (body last) = Inr True
        \<and> list_all (\<lambda>m. is_termination_msg (body m) = Inr False) earlier
        \<and> turnCount (orchestrate finishing_turn 4 ?c) = turnCount ?c + length earlier + 1"
    by blast
  with r n t show ?thesis
    by blast
qed

text \<open>
  C6. The budget is the parameter \<open>max_turns\<close> of the loop, and the program
  configures 10. A run from a running conversation within the budget that ends
  as \<open>TerminatedByLimit\<close>, a state of its own beside \<open>Failed\<close>, has a
  \<open>turnCount\<close> equal to the budget.
\<close>

theorem turn_budget_reached_exactly:
  "max_consecutive_auto_reply = 10
   \<and> (state c = Running \<and> turnCount c \<le> max_turns
        \<and> state (orchestrate turn max_turns c) = TerminatedByLimit
       \<longrightarrow> turnCount (orchestrate turn max_turns c) = max_turns)"
  using orchestrate_limit [of c max_turns turn]
  by (simp add: max_consecutive_auto_reply_def)

theorem turn_budget_reached_exactly_witness:
  "state (initial_conversation ''ACME'' ''Report on ACME.'') = Running
   \<and> turnCount (initial_conversation ''ACME'' ''Report on ACME.'') \<le> max_consecutive_auto_reply
   \<and> state (orchestrate chatty_turn max_consecutive_auto_reply
         (initial_conversation ''ACME'' ''Report on ACME.'')) = TerminatedByLimit
   \<and> turnCount (orchestrate chatty_turn max_consecutive_auto_reply
         (initial_conversation ''ACME'' ''Report on ACME.'')) = 10"
proof -
  let ?c = "initial_conversation ''ACME'' ''Report on ACME.''"
  have r: "state ?c = Running" and z: "turnCount ?c \<le> max_consecutive_auto_reply"
    by (simp_all add: initial_conversation_def)
  have l: "state (orchestrate chatty_turn max_consecutive_auto_reply ?c) = TerminatedByLimit"
    by code_simp
  from turn_budget_reached_exactly [of ?c max_consecutive_auto_reply chatty_turn] r z l
  show ?thesis
    by simp
qed

end
